theory Spec2Isabelle
  imports Main "HOL-Library.AList" "HOL-Library.Word"
begin

section \<open>JavaScript strings\<close>

text \<open>
  A JavaScript string is modelled as a \<open>string\<close>: a list of code units below 256.
  \<open>is_space\<close> is the class \<open>\s\<close> of a regular expression (and what \<open>trim\<close> strips)
  on that range: tab, line feed, vertical tab, form feed, carriage return, space and the
  no-break space.
\<close>

definition is_space :: "char \<Rightarrow> bool" where
  "is_space c = (c \<in> set [CHR 0x09, CHR 0x0A, CHR 0x0B, CHR 0x0C, CHR 0x0D, CHR 0x20, CHR 0xA0])"

definition trim :: "string \<Rightarrow> string" where
  "trim s = rev (dropWhile is_space (rev (dropWhile is_space s)))"

text \<open>The \<open>i\<close> flag compares characters after upper-casing; on this range only the
  ASCII letters have a partner.\<close>

definition ascii_upper :: "char \<Rightarrow> char" where
  "ascii_upper c =
     (let n = (of_char c :: nat) in if 97 \<le> n \<and> n \<le> 122 then char_of (n - 32) else c)"

text \<open>A literal piece of a pattern, matched at the head of the text: the rest of the
  text on success.\<close>

fun strip_prefix :: "string \<Rightarrow> string \<Rightarrow> string option" where
  "strip_prefix [] s = Some s"
| "strip_prefix (p # ps) [] = None"
| "strip_prefix (p # ps) (c # cs) = (if p = c then strip_prefix ps cs else None)"

fun strip_prefix_ci :: "string \<Rightarrow> string \<Rightarrow> string option" where
  "strip_prefix_ci [] s = Some s"
| "strip_prefix_ci (p # ps) [] = None"
| "strip_prefix_ci (p # ps) (c # cs) =
     (if ascii_upper p = ascii_upper c then strip_prefix_ci ps cs else None)"

definition strip_lit :: "bool \<Rightarrow> string \<Rightarrow> string \<Rightarrow> string option" where
  "strip_lit ci p s = (if ci then strip_prefix_ci p s else strip_prefix p s)"

definition ends_with :: "string \<Rightarrow> string \<Rightarrow> bool" where
  "ends_with suffix s = (strip_prefix (rev suffix) (rev s) \<noteq> None)"

definition starts_with :: "string \<Rightarrow> string \<Rightarrow> bool" where
  "starts_with pre s = (strip_prefix pre s \<noteq> None)"

text \<open>\<open>String.prototype.indexOf\<close> as a split: the text before and after the first
  occurrence of a pattern.\<close>

fun find_sub :: "string \<Rightarrow> string \<Rightarrow> (string \<times> string) option" where
  "find_sub pat [] = (if pat = [] then Some ([], []) else None)"
| "find_sub pat (c # cs) =
     (case strip_prefix pat (c # cs) of
        Some rest \<Rightarrow> Some ([], rest)
      | None \<Rightarrow>
          (case find_sub pat cs of
             Some (pre, rest) \<Rightarrow> Some (c # pre, rest)
           | None \<Rightarrow> None))"

text \<open>
  The replacement text of \<open>String.prototype.replace\<close>: \<open>$$\<close> is a dollar sign,
  \<open>$&\<close> the matched text, \<open>$`\<close> the text before it, \<open>$'\<close> the text after
  it, \<open>$1\<close> (or \<open>$01\<close>) the first group when the pattern has one; any other dollar
  sign stands for itself. The patterns of this program have at most one group.
\<close>

fun get_substitution :: "string option \<Rightarrow> string \<Rightarrow> string \<Rightarrow> string \<Rightarrow> string \<Rightarrow> string" where
  "get_substitution grp pre matched rest [] = []"
| "get_substitution grp pre matched rest [c] = [c]"
| "get_substitution grp pre matched rest (c # d # ds) =
     (if c \<noteq> CHR ''$'' then c # get_substitution grp pre matched rest (d # ds)
      else if d = CHR ''$'' then CHR ''$'' # get_substitution grp pre matched rest ds
      else if d = CHR ''&'' then matched @ get_substitution grp pre matched rest ds
      else if d = CHR 0x60 then pre @ get_substitution grp pre matched rest ds
      else if d = CHR 0x27 then rest @ get_substitution grp pre matched rest ds
      else (case grp of
              None \<Rightarrow> c # get_substitution grp pre matched rest (d # ds)
            | Some g \<Rightarrow>
                if d = CHR ''1'' then g @ get_substitution grp pre matched rest ds
                else if d = CHR ''0'' \<and> take 1 ds = ''1''
                then g @ get_substitution grp pre matched rest (drop 1 ds)
                else c # get_substitution grp pre matched rest (d # ds)))"

definition replace_first :: "string \<Rightarrow> string \<Rightarrow> string \<Rightarrow> string" where
  "replace_first s pat repl =
     (case find_sub pat s of
        None \<Rightarrow> s
      | Some (pre, rest) \<Rightarrow> pre @ get_substitution None pre pat rest repl @ rest)"

section \<open>The two regular expressions of extractImageUrls\<close>

text \<open>\<open>https?:\/\/\<close>: the optional \<open>s\<close> is greedy; giving it back cannot help,
  since the colon would then have to match the \<open>s\<close>.\<close>

definition match_scheme :: "bool \<Rightarrow> string \<Rightarrow> string option" where
  "match_scheme ci s =
     (case strip_lit ci ''http'' s of
        None \<Rightarrow> None
      | Some s1 \<Rightarrow>
          (case strip_lit ci ''s'' s1 of
             Some s2 \<Rightarrow>
               (case strip_lit ci ''://'' s2 of
                  Some s3 \<Rightarrow> Some s3
                | None \<Rightarrow> strip_lit ci ''://'' s1)
           | None \<Rightarrow> strip_lit ci ''://'' s1))"

text \<open>
  \<open>!\[([^\]]*)\]\((https?:\/\/[^\s"\)]+)(?:\s+"([^"]*)")?\)\<close> at the head of the
  text. Each starred class is followed by a character outside the class, so the longest
  run is the only one that can match and no shorter run is tried.
  The result is the alt text, the URL, the title when the group took part, and the rest.
\<close>

definition md_url_char :: "char \<Rightarrow> bool" where
  "md_url_char c = (\<not> is_space c \<and> c \<noteq> CHR 0x22 \<and> c \<noteq> CHR '')'')"

definition md_title :: "string \<Rightarrow> (string \<times> string) option" where
  "md_title s =
     (let ws = takeWhile is_space s; s1 = dropWhile is_space s in
      if ws = [] then None
      else (case strip_prefix [CHR 0x22] s1 of
              None \<Rightarrow> None
            | Some s2 \<Rightarrow>
                (case strip_prefix [CHR 0x22] (dropWhile (\<lambda>c. c \<noteq> CHR 0x22) s2) of
                   None \<Rightarrow> None
                 | Some s3 \<Rightarrow> Some (takeWhile (\<lambda>c. c \<noteq> CHR 0x22) s2, s3))))"

definition md_match_here :: "string \<Rightarrow> (string \<times> string \<times> string option \<times> string) option" where
  "md_match_here s =
     (case strip_prefix ''!['' s of
        None \<Rightarrow> None
      | Some s1 \<Rightarrow>
          (case strip_prefix '']('' (dropWhile (\<lambda>c. c \<noteq> CHR '']'') s1) of
             None \<Rightarrow> None
           | Some s3 \<Rightarrow>
               (case match_scheme False s3 of
                  None \<Rightarrow> None
                | Some s4 \<Rightarrow>
                    (let s5 = dropWhile md_url_char s4;
                         alt = takeWhile (\<lambda>c. c \<noteq> CHR '']'') s1;
                         u = take (length s3 - length s5) s3;
                         plain = (case strip_prefix '')'' s5 of
                                    None \<Rightarrow> None
                                  | Some s7 \<Rightarrow> Some (alt, u, None, s7))
                     in if takeWhile md_url_char s4 = [] then None
                        else (case md_title s5 of
                                None \<Rightarrow> plain
                              | Some (t, s6) \<Rightarrow>
                                  (case strip_prefix '')'' s6 of
                                     None \<Rightarrow> plain
                                   | Some s7 \<Rightarrow> Some (alt, u, Some t, s7)))))))"

text \<open>
  \<open><img\s+[^>]*src=["'](https?:\/\/[^"']+)["'][^>]*>\<close> with the \<open>i\<close> flag.
  \<open>html_src\<close> is the pattern from \<open>src=\<close> on; \<open>html_attrs\<close> is the greedy
  \<open>[^>]*\<close> before it, which backtracks: the longest run is tried first, so the last
  \<open>src=\<close> of the tag that can match wins. Giving back white space of \<open>\s+\<close> only
  moves the start of that run onto a white space character, where \<open>src=\<close> cannot
  match, so the run starts after all the white space.
\<close>

definition is_quote :: "char \<Rightarrow> bool" where
  "is_quote c = (c = CHR 0x22 \<or> c = CHR 0x27)"

definition html_src :: "string \<Rightarrow> (string \<times> string) option" where
  "html_src s =
     (case strip_prefix_ci ''src='' s of
        None \<Rightarrow> None
      | Some s1 \<Rightarrow>
          (case s1 of
             [] \<Rightarrow> None
           | q # s2 \<Rightarrow>
               if \<not> is_quote q then None
               else (case match_scheme True s2 of
                       None \<Rightarrow> None
                     | Some s3 \<Rightarrow>
                         (let s4 = dropWhile (\<lambda>c. \<not> is_quote c) s3 in
                          if takeWhile (\<lambda>c. \<not> is_quote c) s3 = [] then None
                          else (case s4 of
                                  [] \<Rightarrow> None
                                | q' # s5 \<Rightarrow>
                                    (case strip_prefix ''>'' (dropWhile (\<lambda>c. c \<noteq> CHR ''>'') s5) of
                                       None \<Rightarrow> None
                                     | Some s6 \<Rightarrow> Some (take (length s2 - length s4) s2, s6)))))))"

fun html_attrs :: "string \<Rightarrow> (string \<times> string) option" where
  "html_attrs [] = html_src []"
| "html_attrs (c # cs) =
     (if c = CHR ''>'' then html_src (c # cs)
      else (case html_attrs cs of
              Some r \<Rightarrow> Some r
            | None \<Rightarrow> html_src (c # cs)))"

definition html_match_here :: "string \<Rightarrow> (string \<times> string) option" where
  "html_match_here s =
     (case strip_prefix_ci ''<img'' s of
        None \<Rightarrow> None
      | Some s1 \<Rightarrow>
          if takeWhile is_space s1 = [] then None
          else html_attrs (dropWhile is_space s1))"

text \<open>
  The loop \<open>while ((match = regex.exec(content)) !== null)\<close> of a global regular
  expression: the leftmost match from \<open>lastIndex\<close> on, then on from its end. The first
  argument counts the characters still inside the last match.
\<close>

fun md_exec :: "nat \<Rightarrow> string \<Rightarrow> (string \<times> string \<times> string \<times> string option) list" where
  "md_exec k [] = []"
| "md_exec (Suc k) (c # cs) = md_exec k cs"
| "md_exec 0 (c # cs) =
     (case md_match_here (c # cs) of
        None \<Rightarrow> md_exec 0 cs
      | Some (a, u, t, rest) \<Rightarrow>
          (take (length (c # cs) - length rest) (c # cs), a, u, t)
            # md_exec (length cs - length rest) cs)"

fun html_exec :: "nat \<Rightarrow> string \<Rightarrow> (string \<times> string) list" where
  "html_exec k [] = []"
| "html_exec (Suc k) (c # cs) = html_exec k cs"
| "html_exec 0 (c # cs) =
     (case html_match_here (c # cs) of
        None \<Rightarrow> html_exec 0 cs
      | Some (u, rest) \<Rightarrow>
          (take (length (c # cs) - length rest) (c # cs), u)
            # html_exec (length cs - length rest) cs)"

section \<open>extractImageUrls\<close>

datatype ref_type = Markdown | Html

record image_ref =
  fullMatch :: string
  url :: string
  rtype :: ref_type
  alt :: string
  title :: string

definition markdown_ref :: "string \<times> string \<times> string \<times> string option \<Rightarrow> image_ref" where
  "markdown_ref m =
     (case m of (full, a, u, t) \<Rightarrow>
        \<lparr>fullMatch = full, url = trim u, rtype = Markdown, alt = a,
         title = (case t of None \<Rightarrow> [] | Some x \<Rightarrow> x)\<rparr>)"

definition html_ref :: "string \<times> string \<Rightarrow> image_ref" where
  "html_ref m =
     (case m of (full, u) \<Rightarrow>
        \<lparr>fullMatch = full, url = trim u, rtype = Html, alt = [], title = []\<rparr>)"

text \<open>The second loop: \<open>urls.some(...)\<close> runs over everything pushed so far, the
  tag matches pushed earlier in this loop included.\<close>

definition alreadyMatched :: "image_ref list \<Rightarrow> string \<times> string \<Rightarrow> bool" where
  "alreadyMatched urls m =
     list_ex (\<lambda>item. fullMatch item = fst m \<or> url item = trim (snd m)) urls"

definition push_html :: "image_ref list \<Rightarrow> string \<times> string \<Rightarrow> image_ref list" where
  "push_html urls m = (if alreadyMatched urls m then urls else urls @ [html_ref m])"

definition extractImageUrls :: "string \<Rightarrow> image_ref list" where
  "extractImageUrls content =
     foldl push_html (map markdown_ref (md_exec 0 content)) (html_exec 0 content)"

section \<open>utils.js: file names and fingerprints\<close>

text \<open>
  A path is a \<open>location\<close>, the place it resolves to in the file system of one
  collection: a file of the images directory, a rewritten document, mapping.json,
  missing-images.json, or any other path (\<open>Outside\<close>).
\<close>

datatype location = ImageFile string | OutputDoc string | MappingJson | MissingImagesJson
  | Outside string

text \<open>
  What the program takes from its runtime: the two digests of \<open>crypto\<close> (the bytes
  of the digest), the parser
  behind \<open>new URL(url).pathname\<close> (\<open>None\<close> when it throws), the answer of the
  network to an attempt of a download (\<open>Inl\<close> the error's message, \<open>Inr\<close> the
  body), the clock at its n-th reading, the variable RETRY_COUNT of the environment, and
  the place of \<open>path.join(imagesDir, name)\<close> for a name that is not a plain file
  name.

  The downloads of a run are numbered in the order of the calls of downloadImage and
  tryDownloadImage that reach the loop of the attempts, and \<open>got rt n a u\<close> is the
  answer to attempt \<open>a\<close> of download \<open>n\<close>, a request for \<open>u\<close>; so the answers do
  not depend on the order in which the requests of concurrent downloads go out.

  \<open>env_retry_count\<close> is \<open>None\<close> when the variable is not set (or empty), and
  otherwise the number \<open>parseInt\<close> reads from it, where \<open>0\<close> stands for every value
  that lets the loop \<open>attempt <= RETRY_COUNT\<close> make no round: zero, a negative number
  and NaN.
\<close>

record runtime =
  md5 :: "string \<Rightarrow> 8 word list"
  sha256 :: "string \<Rightarrow> 8 word list"
  url_pathname :: "string \<Rightarrow> string option"
  got :: "nat \<Rightarrow> nat \<Rightarrow> string \<Rightarrow> string + string"
  date_now :: "nat \<Rightarrow> string"
  env_retry_count :: "nat option"
  join_images_dir :: "string \<Rightarrow> location"

datatype js_error = ReferenceError string | TypeError string | SyntaxError string

definition hex_digit :: "nat \<Rightarrow> char" where
  "hex_digit n = ''0123456789abcdef'' ! (n mod 16)"

text \<open>\<open>digest("hex")\<close>: two digits for every byte of the digest.\<close>

definition hex_byte :: "8 word \<Rightarrow> string" where
  "hex_byte b = [hex_digit (unat b div 16), hex_digit (unat b mod 16)]"

definition digest_hex :: "8 word list \<Rightarrow> string" where
  "digest_hex bs = concat (map hex_byte bs)"

definition calculateFileHash :: "runtime \<Rightarrow> string \<Rightarrow> string" where
  "calculateFileHash rt content = digest_hex (sha256 rt content)"

text \<open>
  The names utils.js can use: its four imports (\<open>got\<close>, \<open>fse\<close>, \<open>crypto\<close>,
  \<open>config\<close>), its own top-level constants, and the globals of the runtime that the
  file mentions. The module \<open>path\<close> is not imported, and Node has no global of that
  name, so evaluating \<open>path.basename\<close> throws a ReferenceError.
\<close>

definition utils_scope :: "string list" where
  "utils_scope =
     [''got'', ''fse'', ''crypto'', ''config'', ''cookies'', ''cookie'', ''requestWithRetry'',
      ''getBooks'', ''getBookInfo'', ''getSection'', ''replaceFileName'',
      ''generateImageFileName'', ''calculateFileHash'',
      ''URL'', ''Map'', ''RegExp'', ''Promise'', ''Error'', ''JSON'', ''Array'', ''console'',
      ''setTimeout'']"

definition resolve_identifier :: "string \<Rightarrow> js_error + unit" where
  "resolve_identifier x = (if x \<in> set utils_scope then Inr () else Inl (ReferenceError x))"

text \<open>\<open>path.basename\<close> (POSIX): the last segment, trailing slashes dropped.\<close>

definition basename :: "string \<Rightarrow> string" where
  "basename p =
     rev (takeWhile (\<lambda>c. c \<noteq> CHR ''/'') (dropWhile (\<lambda>c. c = CHR ''/'') (rev p)))"

text \<open>\<open>url.match(/\.(jpg|jpeg|png|gif|webp|svg|bmp)(\?|#|$)/i)\<close>: the leftmost dot
  after which an alternative, tried in this order, is followed by \<open>?\<close>, \<open>#\<close> or the
  end.\<close>

fun ext_here :: "string list \<Rightarrow> string \<Rightarrow> string option" where
  "ext_here [] s = None"
| "ext_here (e # es) s =
     (case strip_prefix_ci e s of
        None \<Rightarrow> ext_here es s
      | Some rest \<Rightarrow>
          if rest = [] \<or> take 1 rest = ''?'' \<or> take 1 rest = ''#''
          then Some (take (length e) s)
          else ext_here es s)"

fun sniff_extension :: "string \<Rightarrow> string option" where
  "sniff_extension [] = None"
| "sniff_extension (c # cs) =
     (if c = CHR ''.''
      then (case ext_here [''jpg'', ''jpeg'', ''png'', ''gif'', ''webp'', ''svg'', ''bmp''] cs of
              Some e \<Rightarrow> Some e
            | None \<Rightarrow> sniff_extension cs)
      else sniff_extension cs)"

definition sanitize_name :: "string \<Rightarrow> string" where
  "sanitize_name s =
     map (\<lambda>c. if c \<in> set [CHR ''<'', CHR ''>'', CHR '':'', CHR 0x22, CHR ''/'', CHR 0x5C,
                            CHR ''|'', CHR ''?'', CHR ''*'']
               then CHR ''_'' else c) s"

definition url_hash :: "runtime \<Rightarrow> string \<Rightarrow> string" where
  "url_hash rt u = take 8 (digest_hex (md5 rt u))"

text \<open>The body of the \<open>try\<close> of generateImageFileName, statement by statement.\<close>

definition name_from_url :: "runtime \<Rightarrow> string \<Rightarrow> js_error + string" where
  "name_from_url rt u =
     (case url_pathname rt u of
        None \<Rightarrow> Inl (TypeError ''Invalid URL'')
      | Some pathname \<Rightarrow>
          (case resolve_identifier ''path'' of
             Inl e \<Rightarrow> Inl e
           | Inr _ \<Rightarrow>
               (let fileName = basename pathname in
                if fileName = [] \<or> CHR ''.'' \<notin> set fileName
                then Inr (url_hash rt u @ ''.'' @
                          (case sniff_extension u of Some e \<Rightarrow> e | None \<Rightarrow> ''jpg''))
                else Inr (sanitize_name fileName))))"

definition generateImageFileName :: "runtime \<Rightarrow> string \<Rightarrow> string" where
  "generateImageFileName rt u =
     (case name_from_url rt u of
        Inr fileName \<Rightarrow> fileName
      | Inl e \<Rightarrow> url_hash rt u @ ''.jpg'')"

section \<open>The disk of one collection\<close>

text \<open>
  The state the two programs share is the part of the file system that belongs to one
  collection: the directory of source documents, and the output directory with the
  rewritten documents, the images directory, mapping.json and missing-images.json.
  Directories are created when needed (\<open>ensureDirSync\<close>) and are not
  part of the state; the images directory holds regular files only; disk errors and
  the logger's files are not modelled.
  A JSON file holds the value \<open>JSON.parse\<close> gives for it: \<open>Unparsable\<close> when the
  parser throws, \<open>Null\<close> when the text is \<open>null\<close>, and otherwise an object, as the
  list of its own entries in insertion order, every value an object with the properties
  of the record. The two programs write objects only; a file that holds a number, a
  string or an array is not part of the model.
  The state also counts the downloads started, the requests sent and the readings of
  the clock.
\<close>

datatype 'a json_file = Absent | Unparsable | Null | Parsed 'a

text \<open>What is done to \<open>null\<close> as to an object throws a TypeError:
  \<open>Object.keys(null)\<close> and \<open>delete null[name]\<close> the first, \<open>null[name]\<close> the
  second.\<close>

definition null_error :: js_error where
  "null_error = TypeError ''Cannot convert undefined or null to object''"

definition read_null_error :: "string \<Rightarrow> js_error" where
  "read_null_error name =
     TypeError (''Cannot read properties of null (reading '' @ [CHR 0x27] @ name @ [CHR 0x27] @ '')'')"

text \<open>A value of mapping.json: an object that may carry the properties of an image
  entry and those of the metadata entry.\<close>

record mapping_value =
  originalUrl :: "string option"
  localPath :: "string option"
  sourceFileHash :: "string option"
  lastProcessed :: "string option"

type_synonym mapping = "(string \<times> mapping_value) list"

record missing_image =
  originalUrl' :: string
  expectedPath :: string
  localFilePath :: "location option"
  error :: string
  sourceFile :: string

type_synonym ledger = "(string \<times> missing_image) list"

record world =
  sources :: "(string \<times> string option) list"
  outputs :: "(string \<times> string) list"
  images :: "(string \<times> string) list"
  mapping_json :: "mapping json_file"
  missing_images_json :: "ledger json_file"
  outside :: "(string \<times> string) list"
  downloads :: nat
  requests :: nat
  clock :: nat

fun existsSync :: "world \<Rightarrow> location \<Rightarrow> bool" where
  "existsSync w (ImageFile n) = (map_of (images w) n \<noteq> None)"
| "existsSync w (OutputDoc n) = (map_of (outputs w) n \<noteq> None)"
| "existsSync w MappingJson = (mapping_json w \<noteq> Absent)"
| "existsSync w MissingImagesJson = (missing_images_json w \<noteq> Absent)"
| "existsSync w (Outside p) = (map_of (outside w) p \<noteq> None)"

text \<open>\<open>fs.writeFileSync(localPath, response.rawBody)\<close>. A body stored under the
  path of a JSON file is taken not to parse.\<close>

fun writeFileSync :: "location \<Rightarrow> string \<Rightarrow> world \<Rightarrow> world" where
  "writeFileSync (ImageFile n) body w = w\<lparr>images := AList.update n body (images w)\<rparr>"
| "writeFileSync (OutputDoc n) body w = w\<lparr>outputs := AList.update n body (outputs w)\<rparr>"
| "writeFileSync MappingJson body w = w\<lparr>mapping_json := Unparsable\<rparr>"
| "writeFileSync MissingImagesJson body w = w\<lparr>missing_images_json := Unparsable\<rparr>"
| "writeFileSync (Outside p) body w = w\<lparr>outside := AList.update p body (outside w)\<rparr>"

definition readSource :: "world \<Rightarrow> string \<Rightarrow> string option" where
  "readSource w fileName =
     (case map_of (sources w) fileName of Some (Some content) \<Rightarrow> Some content | _ \<Rightarrow> None)"

text \<open>
  \<open>path.join(imagesDir, name)\<close>. A plain file name (not empty, not \<open>.\<close> or
  \<open>..\<close>, without a separator) is a file of the images directory. Any other name is
  normalised by \<open>path.join\<close> and may leave the images directory; where it lies is for
  the runtime to say. The Sync Engine joins the names generateImageFileName gives and the
  names \<open>readdirSync\<close> lists, which are plain; the Recovery Scanner joins the keys of
  the two JSON files.
\<close>

definition plain_name :: "string \<Rightarrow> bool" where
  "plain_name name =
     (name \<noteq> [] \<and> name \<noteq> ''.'' \<and> name \<noteq> ''..'' \<and>
      CHR ''/'' \<notin> set name \<and> CHR 0x5C \<notin> set name)"

definition image_path :: "runtime \<Rightarrow> string \<Rightarrow> location" where
  "image_path rt name = (if plain_name name then ImageFile name else join_images_dir rt name)"

section \<open>Configuration (lib/config.js)\<close>

text \<open>
  \<open>maxConcurrent\<close> at its default. \<open>retryCount\<close> is 3 unless RETRY_COUNT is set
  in the environment (lines 44 to 46), and then what \<open>parseInt\<close> reads.
\<close>

definition MAX_CONCURRENT :: nat where
  "MAX_CONCURRENT = 5"

definition RETRY_COUNT :: "runtime \<Rightarrow> nat" where
  "RETRY_COUNT rt = (case env_retry_count rt of None \<Rightarrow> 3 | Some n \<Rightarrow> n)"

definition IMAGES_DIR_NAME :: string where
  "IMAGES_DIR_NAME = ''images''"

section \<open>The Download Executor\<close>

fun decimal :: "nat \<Rightarrow> string" where
  "decimal n = (if n < 10 then [hex_digit n] else decimal (n div 10) @ [hex_digit (n mod 10)])"

definition download_error :: "nat \<Rightarrow> string \<Rightarrow> string" where
  "download_error attempt msg = ''download failed ('' @ decimal attempt @ '' attempts): '' @ msg"

text \<open>\<open>await got(url, ...)\<close>: one request, counted, of the given attempt of the
  given download. A call without a URL is refused before anything is sent.\<close>

definition request ::
  "runtime \<Rightarrow> nat \<Rightarrow> nat \<Rightarrow> string option \<Rightarrow> world \<Rightarrow> world \<times> (string + string)" where
  "request rt n attempt u w =
     (case u of
        None \<Rightarrow> (w, Inl ''missing url'')
      | Some a \<Rightarrow> (w\<lparr>requests := requests w + 1\<rparr>, got rt n attempt a))"

text \<open>
  The loop \<open>for (let attempt = 1; attempt <= RETRY_COUNT; attempt++)\<close>, the same text
  in downloadImage and in tryDownloadImage, for the download of the given number; the
  next argument counts the rounds that are left. \<open>Inl\<close> is the error thrown after the
  last attempt, \<open>Inr\<close> the value returned (\<open>false\<close> when the loop made no round);
  the body is written only once a whole response is in hand.
\<close>

fun download_attempts ::
  "runtime \<Rightarrow> nat \<Rightarrow> nat \<Rightarrow> nat \<Rightarrow> string option \<Rightarrow> location \<Rightarrow> world \<Rightarrow>
     world \<times> (string + bool)" where
  "download_attempts rt n 0 attempt u dest w = (w, Inr False)"
| "download_attempts rt n (Suc k) attempt u dest w =
     (case request rt n attempt u w of
        (w1, Inr body) \<Rightarrow> (writeFileSync dest body w1, Inr True)
      | (w1, Inl msg) \<Rightarrow>
          if attempt = RETRY_COUNT rt then (w1, Inl (download_error attempt msg))
          else download_attempts rt n k (attempt + 1) u dest w1)"

definition tryDownloadImage ::
  "runtime \<Rightarrow> string option \<Rightarrow> location \<Rightarrow> world \<Rightarrow> world \<times> (string + bool)" where
  "tryDownloadImage rt u dest w =
     download_attempts rt (downloads w) (RETRY_COUNT rt) 1 u dest
       (w\<lparr>downloads := downloads w + 1\<rparr>)"

definition downloadImage ::
  "runtime \<Rightarrow> string \<Rightarrow> location \<Rightarrow> world \<Rightarrow> world \<times> (string + bool)" where
  "downloadImage rt u dest w =
     (if existsSync w dest then (w, Inr True)
      else download_attempts rt (downloads w) (RETRY_COUNT rt) 1 (Some u) dest
             (w\<lparr>downloads := downloads w + 1\<rparr>))"

text \<open>
  downloadImage is an async function: a call runs it up to its first \<open>await\<close>, which
  is the check of lines 25 to 27 and, when the file is absent, the sending of the first
  request; the rest runs when the caller awaits the promise, on the disk of that moment.
  \<open>downloadImage_start\<close> says whether the call went on to the loop of the attempts
  (with RETRY_COUNT at least 1 its first request is then out),
  \<open>downloadImage_rest\<close> is the rest of the call, for the download of the given number.
\<close>

definition downloadImage_start :: "world \<Rightarrow> location \<Rightarrow> bool" where
  "downloadImage_start w dest = (\<not> existsSync w dest)"

definition downloadImage_rest ::
  "runtime \<Rightarrow> bool \<Rightarrow> nat \<Rightarrow> string \<Rightarrow> location \<Rightarrow> world \<Rightarrow> world \<times> (string + bool)" where
  "downloadImage_rest rt sent n u dest w =
     (if sent then download_attempts rt n (RETRY_COUNT rt) 1 (Some u) dest w
      else (w, Inr True))"

section \<open>process-images.js: the change check\<close>

text \<open>\<open>mapping._metadata && mapping._metadata.sourceFileHash\<close>: a hash that is
  recorded and not the empty string.\<close>

definition lastProcessedHash :: "mapping \<Rightarrow> string option" where
  "lastProcessedHash m =
     (case map_of m ''_metadata'' of
        None \<Rightarrow> None
      | Some v \<Rightarrow>
          (case sourceFileHash v of
             None \<Rightarrow> None
           | Some h \<Rightarrow> if h = [] then None else Some h))"

definition local_name :: "runtime \<Rightarrow> image_ref \<Rightarrow> string" where
  "local_name rt imageInfo = generateImageFileName rt (url imageInfo)"

fun images_present :: "runtime \<Rightarrow> world \<Rightarrow> image_ref list \<Rightarrow> bool" where
  "images_present rt w [] = True"
| "images_present rt w (imageInfo # rest) =
     (if \<not> existsSync w (ImageFile (local_name rt imageInfo)) then False
      else images_present rt w rest)"

definition isFileProcessed :: "runtime \<Rightarrow> world \<Rightarrow> string \<Rightarrow> bool" where
  "isFileProcessed rt w fileName =
     (if \<not> existsSync w (OutputDoc fileName) then False
      else if \<not> existsSync w MappingJson then False
      else (case readSource w fileName of
              None \<Rightarrow> False
            | Some content \<Rightarrow>
                (case mapping_json w of
                   Parsed m \<Rightarrow>
                     (let contentHash = calculateFileHash rt content;
                          lastHash = lastProcessedHash m;
                          imageUrls = extractImageUrls content
                      in if lastHash \<noteq> None \<and> lastHash \<noteq> Some contentHash then False
                         else if imageUrls = []
                         then (lastHash = Some contentHash \<or> lastHash = None)
                         else if \<not> images_present rt w imageUrls then False
                         else (lastHash = Some contentHash \<or> lastHash = None))
                 | _ \<Rightarrow> False)))"

section \<open>process-images.js: processMarkdownFile\<close>

text \<open>The three objects processFolder hands to every document of a pass: the
  mapping, the missing images and the set of used file names (in insertion order).\<close>

record pass_state =
  mapping :: mapping
  missingImages :: ledger
  usedImageFiles :: "string list"

definition set_add :: "'a \<Rightarrow> 'a list \<Rightarrow> 'a list" where
  "set_add x xs = (if x \<in> set xs then xs else xs @ [x])"

record download_result =
  success :: bool
  imageFileName :: string
  relativeImagePath :: string
  rtype' :: ref_type
  alt' :: string
  title' :: string

text \<open>
  A call \<open>downloadImage(url, localImagePath)\<close> that has been made and not yet awaited:
  \<open>in_flight\<close> says whether the call went on to its attempts, \<open>promise_call\<close> is
  the number of the download. The rest of the call, and the
  \<open>then\<close> and \<open>catch\<close> callbacks, run when the caller awaits.
\<close>

record download_promise =
  promise_url :: string
  promise_path :: location
  promise_ref :: image_ref
  promise_call :: nat
  in_flight :: bool

text \<open>The local variables of processMarkdownFile during the download loop.\<close>

record processing =
  pass :: pass_state
  downloadedCount :: nat
  downloadResults :: "(string \<times> download_result) list"
  downloadPromises :: "download_promise list"

definition relative_path :: "string \<Rightarrow> string" where
  "relative_path name = IMAGES_DIR_NAME @ ''/'' @ name"

definition result_for :: "runtime \<Rightarrow> bool \<Rightarrow> image_ref \<Rightarrow> download_result" where
  "result_for rt ok imageInfo =
     \<lparr>success = ok, imageFileName = local_name rt imageInfo,
      relativeImagePath = relative_path (local_name rt imageInfo),
      rtype' = rtype imageInfo, alt' = alt imageInfo, title' = title imageInfo\<rparr>"

definition image_entry :: "string \<Rightarrow> string \<Rightarrow> mapping_value" where
  "image_entry u rel =
     \<lparr>originalUrl = Some u, localPath = Some rel, sourceFileHash = None, lastProcessed = None\<rparr>"

text \<open>One round of the loop \<open>for (const imageInfo of imageUrls)\<close> of lines 231 to
  277. Nothing is awaited in it, so the disk is the same in every round; the calls of
  the loop are the next downloads of the run, in the order of the loop.\<close>

definition launch :: "runtime \<Rightarrow> world \<Rightarrow> processing \<Rightarrow> image_ref \<Rightarrow> processing" where
  "launch rt w st imageInfo =
     (let name = local_name rt imageInfo;
          localImagePath = ImageFile name;
          p = pass st;
          st1 = st\<lparr>pass := p\<lparr>usedImageFiles := set_add name (usedImageFiles p),
                               mapping := AList.update name
                                 (image_entry (url imageInfo) (relative_path name)) (mapping p)\<rparr>\<rparr>
      in if existsSync w localImagePath
         then st1\<lparr>downloadedCount := downloadedCount st1 + 1,
                   downloadResults := AList.update (fullMatch imageInfo)
                     (result_for rt True imageInfo) (downloadResults st1)\<rparr>
         else st1\<lparr>downloadPromises := downloadPromises st1 @
                     [\<lparr>promise_url = url imageInfo, promise_path = localImagePath,
                       promise_ref = imageInfo,
                       promise_call = downloads w + length (downloadPromises st1),
                       in_flight = downloadImage_start w localImagePath\<rparr>]\<rparr>)"

definition launch_all :: "runtime \<Rightarrow> world \<Rightarrow> pass_state \<Rightarrow> image_ref list \<Rightarrow> processing" where
  "launch_all rt w p imageUrls =
     foldl (launch rt w)
       \<lparr>pass = p, downloadedCount = 0, downloadResults = [], downloadPromises = []\<rparr> imageUrls"

text \<open>The downloads that are running when the loop ends, before the first
  \<open>await\<close>.\<close>

definition running :: "processing \<Rightarrow> nat" where
  "running st = length (filter in_flight (downloadPromises st))"

text \<open>The loop of lines 280 to 283: \<open>slice(i, i + MAX_CONCURRENT)\<close> from \<open>i = 0\<close>
  in steps of MAX_CONCURRENT.\<close>

function chunks_from :: "nat \<Rightarrow> 'a list \<Rightarrow> 'a list list" where
  "chunks_from i ps =
     (if i < length ps then take MAX_CONCURRENT (drop i ps) # chunks_from (i + MAX_CONCURRENT) ps
      else [])"
  by pat_completeness auto
termination
  by (relation "measure (\<lambda>(i, ps). length ps - i)") (auto simp: MAX_CONCURRENT_def)

declare chunks_from.simps [simp del]

text \<open>
  Awaiting one promise: the rest of its downloadImage call, then its callback.
  \<open>then\<close> takes no notice of the value downloadImage returned. The attempts of the
  launched downloads go out interleaved; since the answer to an attempt depends on the
  download and the attempt only, and a download touches nothing but its own file, what a
  download does is the same whatever the interleaving. The promises are taken to settle
  in the order of their launch: another order changes the order of the keys of the ledger
  and which of two downloads of one file name, or of one link text, has the last word,
  and nothing else.
\<close>

definition missing_entry :: "runtime \<Rightarrow> string \<Rightarrow> string \<Rightarrow> download_promise \<Rightarrow> missing_image" where
  "missing_entry rt fileName msg d =
     \<lparr>originalUrl' = promise_url d,
      expectedPath = relative_path (local_name rt (promise_ref d)),
      localFilePath = Some (promise_path d),
      error = msg, sourceFile = fileName\<rparr>"

definition settle ::
  "runtime \<Rightarrow> string \<Rightarrow> world \<times> processing \<Rightarrow> download_promise \<Rightarrow> world \<times> processing" where
  "settle rt fileName ws d =
     (case ws of (w, st) \<Rightarrow>
        (case downloadImage_rest rt (in_flight d) (promise_call d) (promise_url d)
                (promise_path d) w of
           (w1, Inr b) \<Rightarrow>
             (w1, st\<lparr>downloadedCount := downloadedCount st + 1,
                     downloadResults := AList.update (fullMatch (promise_ref d))
                       (result_for rt True (promise_ref d)) (downloadResults st)\<rparr>)
         | (w1, Inl msg) \<Rightarrow>
             (w1, st\<lparr>pass := (pass st)\<lparr>missingImages :=
                        AList.update (local_name rt (promise_ref d))
                          (missing_entry rt fileName msg d) (missingImages (pass st))\<rparr>,
                     downloadResults := AList.update (fullMatch (promise_ref d))
                       (result_for rt False (promise_ref d)) (downloadResults st)\<rparr>)))"

definition await_chunks ::
  "runtime \<Rightarrow> string \<Rightarrow> world \<times> processing \<Rightarrow> download_promise list list \<Rightarrow> world \<times> processing" where
  "await_chunks rt fileName ws chunks =
     foldl (\<lambda>ws' chunk. foldl (settle rt fileName) ws' chunk) ws chunks"

text \<open>\<open>fullMatch.replace(/src=["']([^"']+)["']/i, ...)\<close>: the leftmost match is
  replaced.\<close>

definition src_attr_here :: "string \<Rightarrow> (string \<times> string) option" where
  "src_attr_here s =
     (case strip_prefix_ci ''src='' s of
        None \<Rightarrow> None
      | Some s1 \<Rightarrow>
          (case s1 of
             [] \<Rightarrow> None
           | q # s2 \<Rightarrow>
               if \<not> is_quote q then None
               else if takeWhile (\<lambda>c. \<not> is_quote c) s2 = [] then None
               else (case dropWhile (\<lambda>c. \<not> is_quote c) s2 of
                       [] \<Rightarrow> None
                     | q' # s3 \<Rightarrow> Some (takeWhile (\<lambda>c. \<not> is_quote c) s2, s3))))"

fun replace_src :: "string \<Rightarrow> string \<Rightarrow> string \<Rightarrow> string" where
  "replace_src pre [] repl = pre"
| "replace_src pre (c # cs) repl =
     (case src_attr_here (c # cs) of
        None \<Rightarrow> replace_src (pre @ [c]) cs repl
      | Some (g, rest) \<Rightarrow>
          pre @ get_substitution (Some g) pre
                  (take (length (c # cs) - length rest) (c # cs)) rest repl @ rest)"

definition rewrite_link ::
  "(string \<times> download_result) list \<Rightarrow> string \<Rightarrow> image_ref \<Rightarrow> string" where
  "rewrite_link results newContent imageInfo =
     (case map_of results (fullMatch imageInfo) of
        None \<Rightarrow> newContent
      | Some r \<Rightarrow>
          if \<not> success r then newContent
          else (case rtype' r of
                  Markdown \<Rightarrow>
                    (let titlePart = (if title' r = [] then []
                                      else [CHR '' '', CHR 0x22] @ title' r @ [CHR 0x22])
                     in replace_first newContent (fullMatch imageInfo)
                          (''!['' @ alt' r @ '']('' @ relativeImagePath r @ titlePart @ '')''))
                | Html \<Rightarrow>
                    replace_first newContent (fullMatch imageInfo)
                      (replace_src [] (fullMatch imageInfo)
                         (''src='' @ [CHR 0x22] @ relativeImagePath r @ [CHR 0x22]))))"

definition empty_value :: mapping_value where
  "empty_value =
     \<lparr>originalUrl = None, localPath = None, sourceFileHash = None, lastProcessed = None\<rparr>"

text \<open>\<open>if (!mapping._metadata) mapping._metadata = {}\<close> and the two assignments
  after it.\<close>

definition set_metadata :: "string \<Rightarrow> string \<Rightarrow> mapping \<Rightarrow> mapping" where
  "set_metadata h t m =
     AList.update ''_metadata''
       ((case map_of m ''_metadata'' of None \<Rightarrow> empty_value | Some v \<Rightarrow> v)
          \<lparr>sourceFileHash := Some h, lastProcessed := Some t\<rparr>) m"

definition new_date :: "runtime \<Rightarrow> world \<Rightarrow> world \<times> string" where
  "new_date rt w = (w\<lparr>clock := clock w + 1\<rparr>, date_now rt (clock w))"

record file_result =
  processed :: bool
  skipped :: bool
  imagesCount :: nat
  downloaded :: nat
  failedCount :: nat

definition existingImagesCount :: "world \<Rightarrow> nat" where
  "existingImagesCount w =
     (case mapping_json w of
        Parsed m \<Rightarrow> length (filter (\<lambda>key. \<not> starts_with ''_'' key) (map fst m))
      | _ \<Rightarrow> 0)"

text \<open>The branch of a document that was processed before (lines 170 to 196).\<close>

definition skip_file :: "runtime \<Rightarrow> string \<Rightarrow> world \<Rightarrow> pass_state \<Rightarrow> world \<times> pass_state \<times> file_result" where
  "skip_file rt content w p =
     (w,
      p\<lparr>usedImageFiles :=
          foldl (\<lambda>used imageInfo. set_add (local_name rt imageInfo) used)
            (usedImageFiles p) (extractImageUrls content)\<rparr>,
      \<lparr>processed = True, skipped = True, imagesCount = existingImagesCount w,
       downloaded = 0, failedCount = 0\<rparr>)"

text \<open>A document without images (lines 206 to 221): copied, and the mapping is
  written to mapping.json at once.\<close>

definition copy_file ::
  "runtime \<Rightarrow> string \<Rightarrow> string \<Rightarrow> world \<Rightarrow> pass_state \<Rightarrow> world \<times> pass_state \<times> file_result" where
  "copy_file rt fileName content w p =
     (let w1 = writeFileSync (OutputDoc fileName) content w;
          (w2, t) = new_date rt w1;
          m = set_metadata (calculateFileHash rt content) t (mapping p)
      in (w2\<lparr>mapping_json := Parsed m\<rparr>, p\<lparr>mapping := m\<rparr>,
          \<lparr>processed = True, skipped = False, imagesCount = 0, downloaded = 0,
           failedCount = 0\<rparr>))"

text \<open>A document with images (lines 223 to 332).\<close>

definition localize_file ::
  "runtime \<Rightarrow> string \<Rightarrow> string \<Rightarrow> world \<Rightarrow> pass_state \<Rightarrow> world \<times> pass_state \<times> file_result" where
  "localize_file rt fileName content w p =
     (let imageUrls = extractImageUrls content;
          st0 = launch_all rt w p imageUrls;
          w0 = w\<lparr>downloads := downloads w + length (downloadPromises st0)\<rparr>;
          (w1, st) = await_chunks rt fileName (w0, st0) (chunks_from 0 (downloadPromises st0));
          newContent = foldl (rewrite_link (downloadResults st)) content imageUrls;
          w2 = writeFileSync (OutputDoc fileName) newContent w1;
          (w3, t) = new_date rt w2;
          m = set_metadata (calculateFileHash rt content) t (mapping (pass st))
      in (w3, (pass st)\<lparr>mapping := m\<rparr>,
          \<lparr>processed = True, skipped = False, imagesCount = length imageUrls,
           downloaded = downloadedCount st,
           failedCount = length imageUrls - downloadedCount st\<rparr>))"

definition processMarkdownFile ::
  "runtime \<Rightarrow> string \<Rightarrow> world \<Rightarrow> pass_state \<Rightarrow> world \<times> pass_state \<times> file_result" where
  "processMarkdownFile rt fileName w p =
     (case readSource w fileName of
        None \<Rightarrow>
          (w, p, \<lparr>processed = False, skipped = False, imagesCount = 0, downloaded = 0,
                  failedCount = 0\<rparr>)
      | Some content \<Rightarrow>
          if isFileProcessed rt w fileName then skip_file rt content w p
          else if extractImageUrls content = [] then copy_file rt fileName content w p
          else localize_file rt fileName content w p)"

section \<open>process-images.js: processFolder\<close>

record folder_result =
  processedCount :: nat
  skippedCount :: nat
  total :: nat
  totalImagesCount :: nat
  totalDownloadedCount :: nat
  totalFailedCount :: nat
  cleanedCount :: nat

definition md_files :: "world \<Rightarrow> string list" where
  "md_files w = filter (ends_with ''.md'') (map fst (sources w))"

text \<open>
  \<open>log\<close> is what \<open>createLogger("process-images")\<close> returns: an instance of class
  Logger, with the methods \<open>log\<close>, \<open>debug\<close>, \<open>info\<close>, \<open>warn\<close> and \<open>error\<close>.
  Lines 388 and 390 call the instance itself, \<open>log(...)\<close>; an object that is not a
  function cannot be called, and the call throws a TypeError.
\<close>

definition call_logger :: "js_error + unit" where
  "call_logger = Inl (TypeError ''log is not a function'')"

text \<open>Lines 381 to 392: the \<open>try\<close> parses mapping.json, takes its keys and calls
  \<open>log\<close>, the \<open>catch\<close> calls \<open>log\<close> again, and nothing catches what the
  \<open>catch\<close> throws. The parsed mapping is kept in a variable that is not read
  again.\<close>

definition load_existing_mapping :: "world \<Rightarrow> js_error + unit" where
  "load_existing_mapping w =
     (if existsSync w MappingJson
      then (case (case mapping_json w of
                    Parsed existingMapping \<Rightarrow> call_logger
                  | Null \<Rightarrow> Inl null_error
                  | _ \<Rightarrow> Inl (SyntaxError ''JSON.parse'')) of
              Inr u \<Rightarrow> Inr u
            | Inl e \<Rightarrow> call_logger)
      else Inr ())"

definition count_file :: "folder_result \<Rightarrow> file_result \<Rightarrow> folder_result" where
  "count_file r res =
     (if processed res
      then r\<lparr>processedCount := processedCount r + 1,
             skippedCount := skippedCount r + (if skipped res then 1 else 0),
             totalImagesCount := totalImagesCount r + imagesCount res,
             totalDownloadedCount := totalDownloadedCount r + downloaded res,
             totalFailedCount := totalFailedCount r + failedCount res\<rparr>
      else r)"

definition process_file ::
  "runtime \<Rightarrow> world \<times> pass_state \<times> folder_result \<Rightarrow> string \<Rightarrow> world \<times> pass_state \<times> folder_result" where
  "process_file rt acc file =
     (case acc of (w, p, r) \<Rightarrow>
        (case processMarkdownFile rt file w p of
           (w1, p1, res) \<Rightarrow> (w1, p1, count_file r res)))"

text \<open>The Cleanup Pass: the files of the images directory that the pass did not use
  are deleted (lines 414 to 437), and the mapping is rebuilt from the metadata entry and
  the used names that have an entry (lines 439 to 450).\<close>

definition unused_images :: "string list \<Rightarrow> world \<Rightarrow> (string \<times> string) list" where
  "unused_images used w = filter (\<lambda>f. fst f \<notin> set used) (images w)"

definition clean_images :: "string list \<Rightarrow> world \<Rightarrow> world" where
  "clean_images used w = w\<lparr>images := filter (\<lambda>f. fst f \<in> set used) (images w)\<rparr>"

definition keep_used :: "mapping \<Rightarrow> mapping \<Rightarrow> string \<Rightarrow> mapping" where
  "keep_used m cleaned imageFile =
     (case map_of m imageFile of
        None \<Rightarrow> cleaned
      | Some v \<Rightarrow> AList.update imageFile v cleaned)"

definition cleanedMapping :: "mapping \<Rightarrow> string list \<Rightarrow> mapping" where
  "cleanedMapping m used =
     foldl (keep_used m)
       (case map_of m ''_metadata'' of None \<Rightarrow> [] | Some v \<Rightarrow> [(''_metadata'', v)]) used"

text \<open>Lines 461 to 470: the failure ledger is written when the pass has failures,
  and deleted otherwise.\<close>

definition save_missing :: "ledger \<Rightarrow> world \<Rightarrow> world" where
  "save_missing l w =
     (if l \<noteq> [] then w\<lparr>missing_images_json := Parsed l\<rparr>
      else if existsSync w MissingImagesJson then w\<lparr>missing_images_json := Absent\<rparr>
      else w)"

definition empty_pass :: pass_state where
  "empty_pass = \<lparr>mapping = [], missingImages = [], usedImageFiles = []\<rparr>"

definition no_files :: folder_result where
  "no_files =
     \<lparr>processedCount = 0, skippedCount = 0, total = 0, totalImagesCount = 0,
      totalDownloadedCount = 0, totalFailedCount = 0, cleanedCount = 0\<rparr>"

definition process_files ::
  "runtime \<Rightarrow> string list \<Rightarrow> world \<Rightarrow> world \<times> pass_state \<times> folder_result" where
  "process_files rt files w =
     foldl (process_file rt) (w, empty_pass, no_files\<lparr>total := length files\<rparr>) files"

text \<open>processFolder from line 394 on: every document, then the Cleanup Pass and the
  two files.\<close>

definition sync_documents :: "runtime \<Rightarrow> string list \<Rightarrow> world \<Rightarrow> world \<times> folder_result" where
  "sync_documents rt files w =
     (case process_files rt files w of
        (w1, p, r) \<Rightarrow>
          (save_missing (missingImages p)
             ((clean_images (usedImageFiles p) w1)
                \<lparr>mapping_json := Parsed (cleanedMapping (mapping p) (usedImageFiles p))\<rparr>),
           r\<lparr>cleanedCount := length (unused_images (usedImageFiles p) w1)\<rparr>))"

definition processFolder :: "runtime \<Rightarrow> world \<Rightarrow> js_error + world \<times> folder_result" where
  "processFolder rt w =
     (if md_files w = [] then Inr (w, no_files)
      else (case load_existing_mapping w of
              Inl e \<Rightarrow> Inl e
            | Inr u \<Rightarrow> Inr (sync_documents rt (md_files w) w)))"

section \<open>fix-missing-images.js: the Recovery Scanner\<close>

record missing_item =
  fileName :: string
  originalUrl'' :: "string option"
  expectedPath' :: location
  error' :: string
  sourceFile' :: string

text \<open>The first block of scanForMissingImages: the entries of missing-images.json
  whose file \<open>path.join(imagesDir, fileName)\<close> is absent, to be written where
  \<open>localFilePath\<close> says, or to that file when the entry has no \<open>localFilePath\<close>.
  \<open>Object.entries(null)\<close> throws, into the \<open>catch\<close> of the block.\<close>

definition ledger_item :: "runtime \<Rightarrow> string \<times> missing_image \<Rightarrow> missing_item" where
  "ledger_item rt e =
     \<lparr>fileName = fst e, originalUrl'' = Some (originalUrl' (snd e)),
      expectedPath' = (case localFilePath (snd e) of
                         None \<Rightarrow> image_path rt (fst e)
                       | Some dest \<Rightarrow> dest),
      error' = error (snd e), sourceFile' = sourceFile (snd e)\<rparr>"

definition scan_ledger :: "runtime \<Rightarrow> world \<Rightarrow> missing_item list" where
  "scan_ledger rt w =
     (case missing_images_json w of
        Parsed l \<Rightarrow>
          map (ledger_item rt) (filter (\<lambda>e. \<not> existsSync w (image_path rt (fst e))) l)
      | _ \<Rightarrow> [])"

text \<open>The second block: the image entries of mapping.json whose file is absent and
  that the first block did not find.\<close>

definition mapping_item ::
  "runtime \<Rightarrow> world \<Rightarrow> missing_item list \<Rightarrow> string \<times> mapping_value \<Rightarrow> missing_item list" where
  "mapping_item rt w missing e =
     (if starts_with ''_'' (fst e) then missing
      else if \<not> existsSync w (image_path rt (fst e))
      then (if list_ex (\<lambda>item. fileName item = fst e) missing then missing
            else missing @
                   [\<lparr>fileName = fst e, originalUrl'' = originalUrl (snd e),
                     expectedPath' = image_path rt (fst e),
                     error' = ''file does not exist'', sourceFile' = ''unknown''\<rparr>])
      else missing)"

definition scan_mapping :: "runtime \<Rightarrow> world \<Rightarrow> missing_item list \<Rightarrow> missing_item list" where
  "scan_mapping rt w missing =
     (case mapping_json w of
        Parsed m \<Rightarrow> foldl (mapping_item rt w) missing m
      | _ \<Rightarrow> missing)"

text \<open>The third block: the files of the images directory for which \<open>mapping[file]\<close>
  is falsy. The lookup also finds what an object inherits from \<open>Object.prototype\<close>,
  so a file with such a name is never reported; on \<open>null\<close> the lookup throws, into
  the \<open>catch\<close> of the block, as the parser does on a file that does not parse.\<close>

definition object_prototype :: "string list" where
  "object_prototype =
     [''constructor'', ''hasOwnProperty'', ''isPrototypeOf'', ''propertyIsEnumerable'',
      ''toLocaleString'', ''toString'', ''valueOf'', ''__proto__'', ''__defineGetter__'',
      ''__defineSetter__'', ''__lookupGetter__'', ''__lookupSetter__'']"

definition scan_orphaned :: "world \<Rightarrow> string list" where
  "scan_orphaned w =
     (case mapping_json w of
        Absent \<Rightarrow> filter (\<lambda>file. file \<notin> set object_prototype) (map fst (images w))
      | Parsed m \<Rightarrow>
          filter (\<lambda>file. map_of m file = None \<and> file \<notin> set object_prototype)
            (map fst (images w))
      | _ \<Rightarrow> [])"

definition scanForMissingImages :: "runtime \<Rightarrow> world \<Rightarrow> missing_item list \<times> string list" where
  "scanForMissingImages rt w = (scan_mapping rt w (scan_ledger rt w), scan_orphaned w)"

text \<open>The variable \<open>missingImages\<close> of processFolder holds an object or \<open>null\<close>
  (\<open>None\<close>).\<close>

definition updateMissingImagesFile :: "ledger option \<Rightarrow> world \<Rightarrow> js_error + world" where
  "updateMissingImagesFile held w =
     (case held of
        None \<Rightarrow> Inl null_error
      | Some l \<Rightarrow>
          Inr (if l = []
               then (if existsSync w MissingImagesJson then w\<lparr>missing_images_json := Absent\<rparr>
                     else w)
               else w\<lparr>missing_images_json := Parsed l\<rparr>))"

record fix_result =
  fixed :: nat
  failed :: nat
  orphanedCount :: nat

text \<open>
  One round of the loop \<open>for (const item of missing)\<close> (lines 183 to 206), on the
  disk, the variable \<open>missingImages\<close> (\<open>held\<close>) and the two counters. After a download that
  succeeded, \<open>delete missingImages[...]\<close> throws on \<open>null\<close> into the \<open>catch\<close> of the
  round; the \<open>catch\<close> reads \<open>missingImages[...]\<close>, and what that throws on \<open>null\<close>
  leaves processFolder (\<open>Inl\<close>), with the files written so far on the disk.
\<close>

definition retry ::
  "runtime \<Rightarrow> world \<times> (js_error + ledger option \<times> fix_result) \<Rightarrow> missing_item \<Rightarrow>
     world \<times> (js_error + ledger option \<times> fix_result)" where
  "retry rt acc item =
     (case acc of
        (w, Inl e) \<Rightarrow> (w, Inl e)
      | (w, Inr (held, r)) \<Rightarrow>
          (case tryDownloadImage rt (originalUrl'' item) (expectedPath' item) w of
             (w1, Inr ok) \<Rightarrow>
               if ok
               then (case held of
                       None \<Rightarrow> (w1, Inl (read_null_error (fileName item)))
                     | Some l \<Rightarrow>
                         (w1, Inr (Some (AList.delete (fileName item) l),
                                   r\<lparr>fixed := fixed r + 1\<rparr>)))
               else (w1, Inr (held, r\<lparr>failed := failed r + 1\<rparr>))
           | (w1, Inl msg) \<Rightarrow>
               (case held of
                  None \<Rightarrow> (w1, Inl (read_null_error (fileName item)))
                | Some l \<Rightarrow>
                    (w1, Inr (Some (case map_of l (fileName item) of
                                      None \<Rightarrow> l
                                    | Some info \<Rightarrow>
                                        AList.update (fileName item) (info\<lparr>error := msg\<rparr>) l),
                              r\<lparr>failed := failed r + 1\<rparr>)))))"

text \<open>Lines 168 to 177: \<open>missingImages\<close> is what the file parses to, and an empty
  object when there is no file or the parser throws.\<close>

definition loaded_ledger :: "world \<Rightarrow> ledger option" where
  "loaded_ledger w =
     (case missing_images_json w of Parsed l \<Rightarrow> Some l | Null \<Rightarrow> None | _ \<Rightarrow> Some [])"

text \<open>processFolder of fix-missing-images.js: the disk it leaves, and the counts it
  returns or the error that leaves it.\<close>

definition fix_processFolder :: "runtime \<Rightarrow> world \<Rightarrow> world \<times> (js_error + fix_result)" where
  "fix_processFolder rt w =
     (case scanForMissingImages rt w of
        (missing, orphaned) \<Rightarrow>
          if missing = [] \<and> orphaned = []
          then (w, Inr \<lparr>fixed = 0, failed = 0, orphanedCount = length orphaned\<rparr>)
          else (case foldl (retry rt)
                       (w, Inr (loaded_ledger w,
                                \<lparr>fixed = 0, failed = 0, orphanedCount = length orphaned\<rparr>))
                       missing of
                  (w1, Inl e) \<Rightarrow> (w1, Inl e)
                | (w1, Inr (held, r)) \<Rightarrow>
                    (case updateMissingImagesFile held w1 of
                       Inl e \<Rightarrow> (w1, Inl e)
                     | Inr w2 \<Rightarrow> (w2, Inr r))))"

section \<open>Concrete collections\<close>

text \<open>
  Two runtimes that differ in the network only: \<open>offline\<close> fails every request,
  \<open>online\<close> answers every request. The first byte of the MD5 stand-in is the length
  of the URL, so that URLs of different lengths get different file names, and the last
  byte of the SHA-256 stand-in is the length of the text. RETRY_COUNT is not set.
\<close>

definition offline :: runtime where
  "offline =
     \<lparr>md5 = (\<lambda>u. word_of_nat (length u) # replicate 15 0),
      sha256 = (\<lambda>s. replicate 31 0 @ [word_of_nat (length s)]),
      url_pathname =
        (\<lambda>u. Some (takeWhile (\<lambda>c. c \<noteq> CHR ''?'') (dropWhile (\<lambda>c. c \<noteq> CHR ''/'') (drop 8 u)))),
      got = (\<lambda>n a u. Inl ''timeout''),
      date_now = (\<lambda>n. ''2024-01-01T00:00:00.000Z''),
      env_retry_count = None,
      join_images_dir = Outside\<rparr>"

definition online :: runtime where
  "online = offline\<lparr>got := (\<lambda>n a u. Inr ''PNG'')\<rparr>"

text \<open>A collection that was never processed: one document with one image.\<close>

definition fresh_collection :: world where
  "fresh_collection =
     \<lparr>sources = [(''a.md'', Some ''![x](http://h/a.png)'')], outputs = [], images = [],
      mapping_json = Absent, missing_images_json = Absent, outside = [],
      downloads = 0, requests = 0, clock = 0\<rparr>"

definition synced_mapping :: mapping where
  "synced_mapping =
     [(''_metadata'',
       \<lparr>originalUrl = None, localPath = None,
        sourceFileHash =
          Some ''0000000000000000000000000000000000000000000000000000000000000014'',
        lastProcessed = Some ''2024-01-01T00:00:00.000Z''\<rparr>),
      (''0e000000.jpg'',
       \<lparr>originalUrl = Some ''http://h/a.png'', localPath = Some ''images/0e000000.jpg'',
        sourceFileHash = None, lastProcessed = None\<rparr>)]"

text \<open>The same collection after one pass with the network up.\<close>

definition synced_collection :: world where
  "synced_collection =
     \<lparr>sources = [(''a.md'', Some ''![x](http://h/a.png)'')],
      outputs = [(''a.md'', ''![x](images/0e000000.jpg)'')],
      images = [(''0e000000.jpg'', ''PNG'')],
      mapping_json = Parsed synced_mapping, missing_images_json = Absent, outside = [],
      downloads = 1, requests = 1, clock = 1\<rparr>"

definition one_document :: folder_result where
  "one_document =
     \<lparr>processedCount = 1, skippedCount = 0, total = 1, totalImagesCount = 1,
      totalDownloadedCount = 1, totalFailedCount = 0, cleanedCount = 0\<rparr>"

definition six_images :: string where
  "six_images =
     ''![a](http://h/1.png) ![b](http://h/22.png) ![c](http://h/333.png) '' @
     ''![d](http://h/4444.png) ![e](http://h/55555.png) ![f](http://h/666666.png)''"

definition img_tag :: "string \<Rightarrow> string \<Rightarrow> string" where
  "img_tag u attrs = ''<img src='' @ [CHR 0x22] @ u @ [CHR 0x22] @ attrs @ ''>''"

definition two_tags :: string where
  "two_tags = img_tag ''http://h/a.png'' [] @ img_tag ''http://h/a.png'' '' alt=x''"

definition failed_ledger :: ledger where
  "failed_ledger =
     [(''0e000000.jpg'',
       \<lparr>originalUrl' = ''http://h/a.png'', expectedPath = ''images/0e000000.jpg'',
        localFilePath = Some (ImageFile ''0e000000.jpg''),
        error = ''download failed (3 attempts): timeout'', sourceFile = ''a.md''\<rparr>)]"

text \<open>The collection of one document after one pass with the network down.\<close>

definition failed_collection :: world where
  "failed_collection =
     \<lparr>sources = [(''a.md'', Some ''![x](http://h/a.png)'')],
      outputs = [(''a.md'', ''![x](http://h/a.png)'')],
      images = [],
      mapping_json = Parsed synced_mapping,
      missing_images_json = Parsed failed_ledger, outside = [],
      downloads = 1, requests = 3, clock = 1\<rparr>"

definition one_failure :: folder_result where
  "one_failure =
     \<lparr>processedCount = 1, skippedCount = 0, total = 1, totalImagesCount = 1,
      totalDownloadedCount = 0, totalFailedCount = 1, cleanedCount = 0\<rparr>"

text \<open>The synced collection after its document was edited.\<close>

definition edited_collection :: world where
  "edited_collection =
     synced_collection\<lparr>sources := [(''a.md'', Some ''![x](http://h/a.png) and more'')]\<rparr>"

text \<open>The synced collection after its image was deleted by hand.\<close>

definition lost_image :: world where
  "lost_image = synced_collection\<lparr>images := []\<rparr>"

text \<open>A collection of two documents with the same text and no image, whose outputs
  are in place and whose mapping.json was removed; and the same collection after a
  pass.\<close>

definition text_mapping :: mapping where
  "text_mapping =
     [(''_metadata'',
       \<lparr>originalUrl = None, localPath = None,
        sourceFileHash =
          Some ''0000000000000000000000000000000000000000000000000000000000000004'',
        lastProcessed = Some ''2024-01-01T00:00:00.000Z''\<rparr>)]"

definition text_collection :: world where
  "text_collection =
     \<lparr>sources = [(''a.md'', Some ''text''), (''b.md'', Some ''text'')],
      outputs = [(''a.md'', ''text''), (''b.md'', ''text'')], images = [],
      mapping_json = Absent, missing_images_json = Absent, outside = [],
      downloads = 0, requests = 0, clock = 0\<rparr>"

definition one_skipped :: folder_result where
  "one_skipped =
     \<lparr>processedCount = 2, skippedCount = 1, total = 2, totalImagesCount = 0,
      totalDownloadedCount = 0, totalFailedCount = 0, cleanedCount = 0\<rparr>"

section \<open>Vocabulary of the properties\<close>

text \<open>The local names of the images of every source document a pass can read.\<close>

definition refs_of :: "runtime \<Rightarrow> world \<Rightarrow> string \<Rightarrow> string list" where
  "refs_of rt w file =
     (case readSource w file of
        None \<Rightarrow> []
      | Some content \<Rightarrow> map (local_name rt) (extractImageUrls content))"

definition asset_names :: "runtime \<Rightarrow> world \<Rightarrow> string list" where
  "asset_names rt w = concat (map (refs_of rt w) (md_files w))"

definition keys :: "('k \<times> 'v) list \<Rightarrow> 'k set" where
  "keys al = fst ` set al"

text \<open>The names the failure ledger on disk lists.\<close>

definition listed :: "world \<Rightarrow> string set" where
  "listed w = (case missing_images_json w of Parsed l \<Rightarrow> keys l | _ \<Rightarrow> {})"

text \<open>
  The two JSON files as the two programs leave them: every key of the ledger is a plain
  file name and its \<open>localFilePath\<close>, if it has one, is the file of that name in the
  images directory; every key of mapping.json is a plain file name or starts with an
  underscore.
\<close>

definition in_place :: "string \<times> missing_image \<Rightarrow> bool" where
  "in_place e =
     (plain_name (fst e) \<and>
      (localFilePath (snd e) = None \<or> localFilePath (snd e) = Some (ImageFile (fst e))))"

definition well_kept :: "world \<Rightarrow> bool" where
  "well_kept w =
     ((case missing_images_json w of Parsed l \<Rightarrow> list_all in_place l | _ \<Rightarrow> True) \<and>
      (case mapping_json w of
         Parsed m \<Rightarrow> list_all (\<lambda>e. starts_with ''_'' (fst e) \<or> plain_name (fst e)) m
       | _ \<Rightarrow> True))"

text \<open>What a pass leaves alone: the sources, the rewritten documents, mapping.json
  and every file outside the collection.\<close>

definition untouched :: "world \<Rightarrow> world \<Rightarrow> bool" where
  "untouched w w' =
     (sources w' = sources w \<and> outputs w' = outputs w \<and> mapping_json w' = mapping_json w \<and>
      outside w' = outside w)"

text \<open>Every file the images directory holds is still there, with the same
  bytes.\<close>

definition images_kept :: "world \<Rightarrow> world \<Rightarrow> bool" where
  "images_kept w w' =
     list_all (\<lambda>e. map_of (images w') (fst e) = map_of (images w) (fst e)) (images w)"

text \<open>The texts of the documents a pass can read, and what is expected of SHA-256
  on them: no fingerprint is empty, and two different texts have different
  fingerprints.\<close>

definition doc_texts :: "world \<Rightarrow> string list" where
  "doc_texts w =
     concat (map (\<lambda>f. case readSource w f of None \<Rightarrow> [] | Some content \<Rightarrow> [content])
               (md_files w))"

definition fingerprints_distinct :: "runtime \<Rightarrow> world \<Rightarrow> bool" where
  "fingerprints_distinct rt w =
     list_all (\<lambda>c. calculateFileHash rt c \<noteq> [] \<and>
                    list_all (\<lambda>c'. c' = c \<or> calculateFileHash rt c' \<noteq> calculateFileHash rt c)
                      (doc_texts w))
       (doc_texts w)"

text \<open>An entry of the ledger as the Sync Engine writes it: its
  \<open>localFilePath\<close> is the file of its key in the images directory.\<close>

definition placed :: "string \<times> missing_image \<Rightarrow> bool" where
  "placed e = (localFilePath (snd e) = Some (ImageFile (fst e)))"

text \<open>A promise made by the launch loop: its target is the file of its own
  reference, and the call went on to its attempts.\<close>

definition well_launched :: "runtime \<Rightarrow> download_promise \<Rightarrow> bool" where
  "well_launched rt d =
     (promise_path d = ImageFile (local_name rt (promise_ref d)) \<and> in_flight d)"

text \<open>What holds between the documents of a pass, for the set \<open>S\<close> of the names of
  the images of the documents processed so far.\<close>

definition pass_inv :: "runtime \<Rightarrow> string set \<Rightarrow> world \<Rightarrow> pass_state \<Rightarrow> bool" where
  "pass_inv rt S w p =
     (keys (missingImages p) \<subseteq> keys (mapping p) \<inter> set (usedImageFiles p) \<and>
      keys (mapping p) \<subseteq> insert ''_metadata'' S \<and>
      S \<subseteq> set (usedImageFiles p) \<and> set (usedImageFiles p) \<subseteq> S \<and>
      list_all placed (missingImages p) \<and>
      (RETRY_COUNT rt = 0 \<or> S \<subseteq> keys (images w) \<union> keys (missingImages p)))"

text \<open>What holds of the skipped documents when fingerprints are distinct: a
  mapping.json that a pass finds was written by the pass for a document without images,
  so a document that is skipped has no image, and every used name has an entry in the
  mapping.\<close>

definition skip_inv :: "runtime \<Rightarrow> world \<Rightarrow> world \<Rightarrow> pass_state \<Rightarrow> bool" where
  "skip_inv rt w0 w p =
     ((mapping_json w = Absent \<or>
       (\<exists>c0\<in>set (doc_texts w0). extractImageUrls c0 = [] \<and>
          (\<exists>m. mapping_json w = Parsed m \<and>
               lastProcessedHash m = Some (calculateFileHash rt c0)))) \<and>
      set (usedImageFiles p) \<subseteq> keys (mapping p))"

text \<open>The counts of a pass: a document that was processed and not skipped left a
  metadata entry in the mapping.\<close>

definition count_inv :: "pass_state \<Rightarrow> folder_result \<Rightarrow> bool" where
  "count_inv p r =
     (skippedCount r \<le> processedCount r \<and>
      (skippedCount r = processedCount r \<or> ''_metadata'' \<in> keys (mapping p)))"

section \<open>The file name of an asset\<close>

lemma name_from_url_throws:
  "name_from_url rt u = Inl (TypeError ''Invalid URL'') \<or>
   name_from_url rt u = Inl (ReferenceError ''path'')"
  by (cases "url_pathname rt u")
     (simp_all add: name_from_url_def resolve_identifier_def utils_scope_def)

text \<open>
  C4. The name of an asset is never taken from the path of its URL, and the extension
  is never read from the URL: \<open>path\<close> is not in scope in utils.js, the \<open>try\<close> of
  generateImageFileName always throws, and the \<open>catch\<close> gives the first eight
  digits of the MD5 of the URL with the extension jpg. For
  \<open>https://example.com/a/b.png\<close> the result is not \<open>b.png\<close>.
\<close>

theorem generateImageFileName_is_hash_jpg:
  "generateImageFileName rt u = url_hash rt u @ ''.jpg'' \<and>
   generateImageFileName rt ''https://example.com/a/b.png'' \<noteq> ''b.png''"
proof -
  have eq: "generateImageFileName rt v = url_hash rt v @ ''.jpg''" for v
    using name_from_url_throws [of rt v] by (auto simp: generateImageFileName_def)
  have ne: "x @ ''.jpg'' \<noteq> ''b.png''" for x :: string
  proof
    assume "x @ ''.jpg'' = ''b.png''"
    then have "rev (x @ ''.jpg'') = rev ''b.png''"
      by (rule arg_cong)
    then show False
      by simp
  qed
  from eq ne show ?thesis
    by simp
qed

text \<open>The names the Sync Engine gives are plain file names, and none of them is the
  metadata key.\<close>

lemma local_name_hash: "local_name rt i = url_hash rt (url i) @ ''.jpg''"
  using name_from_url_throws [of rt "url i"]
  by (auto simp: local_name_def generateImageFileName_def)

lemma hex_digit_cases: "hex_digit n \<in> set ''0123456789abcdef''"
  unfolding hex_digit_def by (rule nth_mem) simp

lemma digest_hex_chars: "set (digest_hex bs) \<subseteq> set ''0123456789abcdef''"
proof (induction bs)
  case Nil
  show ?case
    by (simp add: digest_hex_def)
next
  case (Cons b bs)
  have "set (hex_byte b) \<subseteq> set ''0123456789abcdef''"
    unfolding hex_byte_def using hex_digit_cases by simp
  with Cons show ?case
    by (simp add: digest_hex_def)
qed

lemma url_hash_chars: "set (url_hash rt u) \<subseteq> set ''0123456789abcdef''"
  unfolding url_hash_def by (rule subset_trans [OF set_take_subset digest_hex_chars])

lemma local_name_plain: "plain_name (local_name rt i)"
proof -
  let ?h = "url_hash rt (url i)"
  have c: "set ?h \<subseteq> set ''0123456789abcdef''"
    by (rule url_hash_chars)
  have "CHR ''/'' \<notin> set ?h" "CHR 0x5C \<notin> set ?h"
    using c by auto
  moreover have "?h @ ''.jpg'' \<noteq> ''.''" "?h @ ''.jpg'' \<noteq> ''..''"
    by (cases ?h; simp)+
  ultimately show ?thesis
    by (simp add: plain_name_def local_name_hash)
qed

lemma local_name_not_metadata: "local_name rt i \<noteq> ''_metadata''"
proof
  assume "local_name rt i = ''_metadata''"
  then have "rev (url_hash rt (url i) @ ''.jpg'') = rev ''_metadata''"
    by (simp add: local_name_hash)
  then show False
    by simp
qed

section \<open>The extractor\<close>

text \<open>
  C7. Two different image tags with the same URL give one reference: the second tag
  is compared with every reference pushed so far, the first tag included, and is
  dropped because its URL is already there. No inline link takes part.
\<close>

theorem extractImageUrls_drops_second_tag:
  "map (\<lambda>m. (fst m = img_tag ''http://h/a.png'' [], snd m)) (html_exec 0 two_tags) =
     [(True, ''http://h/a.png''), (False, ''http://h/a.png'')] \<and>
   map url (extractImageUrls two_tags) = [''http://h/a.png'']"
  by code_simp

section \<open>Downloads in flight\<close>

lemma downloadImage_split:
  "downloadImage rt u dest w =
     downloadImage_rest rt (downloadImage_start w dest) (downloads w) u dest
       (if downloadImage_start w dest then w\<lparr>downloads := downloads w + 1\<rparr> else w)"
  by (simp add: downloadImage_def downloadImage_rest_def downloadImage_start_def)

lemma running_foldl_launch:
  "running (foldl (launch rt w) st imageUrls) =
     running st + length (filter (\<lambda>i. \<not> existsSync w (ImageFile (local_name rt i))) imageUrls)"
  by (induction imageUrls arbitrary: st)
     (simp_all add: launch_def running_def downloadImage_start_def Let_def)

lemma running_launch_all:
  "running (launch_all rt w p imageUrls) =
     length (filter (\<lambda>i. \<not> existsSync w (ImageFile (local_name rt i))) imageUrls)"
  by (simp add: launch_all_def running_foldl_launch) (simp add: running_def)

text \<open>
  C1. For a document with six images that are not on disk, the loop of
  processMarkdownFile has called downloadImage six times when it ends, before anything
  is awaited: six downloads are in flight, and the configured maximum is five. The
  chunks of five that are awaited afterwards hold promises of calls already made.
\<close>

theorem six_downloads_in_flight:
  "running (launch_all offline fresh_collection empty_pass (extractImageUrls six_images)) = 6 \<and>
   MAX_CONCURRENT = 5"
  by code_simp

section \<open>The second pass over a collection\<close>

lemma first_pass_online:
  "processFolder online fresh_collection = Inr (synced_collection, one_document)"
  by code_simp

lemma processFolder_existing_mapping:
  "md_files w \<noteq> [] \<Longrightarrow> mapping_json w \<noteq> Absent \<Longrightarrow>
   processFolder rt w = Inl (TypeError ''log is not a function'')"
  by (cases "mapping_json w")
     (simp_all add: processFolder_def load_existing_mapping_def call_logger_def)

lemma processFolder_reaches_documents:
  "processFolder rt w = Inr (w', r) \<Longrightarrow> md_files w \<noteq> [] \<Longrightarrow> mapping_json w = Absent"
  using processFolder_existing_mapping [of w rt] by auto

text \<open>
  C5. The second pass over a collection does not skip its unchanged document: the
  first pass leaves mapping.json behind, and a pass that finds mapping.json throws a
  TypeError at the call of \<open>log\<close> before it looks at any document.
\<close>

theorem second_pass_aborts:
  "processFolder online fresh_collection = Inr (synced_collection, one_document) \<and>
   processFolder online synced_collection = Inl (TypeError ''log is not a function'')"
  by code_simp

section \<open>The change check\<close>

lemma images_present_list_all:
  "images_present rt w imageUrls =
     list_all (\<lambda>i. existsSync w (ImageFile (local_name rt i))) imageUrls"
  by (induction imageUrls) simp_all

text \<open>
  The decision of isFileProcessed, as a function of the disk it is called on: the output
  exists, mapping.json parses to an object, the source can be read, the recorded
  sourceFileHash is missing or equal to the fingerprint of the source, and every image
  of the source is on disk.
\<close>

lemma isFileProcessed_iff:
  "isFileProcessed rt w f \<longleftrightarrow>
     existsSync w (OutputDoc f) \<and>
     (\<exists>m content.
        mapping_json w = Parsed m \<and> readSource w f = Some content \<and>
        (lastProcessedHash m = None \<or>
         lastProcessedHash m = Some (calculateFileHash rt content)) \<and>
        list_all (\<lambda>i. existsSync w (ImageFile (local_name rt i))) (extractImageUrls content))"
proof (cases "mapping_json w")
  case Absent
  then show ?thesis
    by (simp add: isFileProcessed_def)
next
  case Unparsable
  then show ?thesis
    by (simp add: isFileProcessed_def split: option.split)
next
  case Null
  then show ?thesis
    by (simp add: isFileProcessed_def split: option.split)
next
  case (Parsed m)
  show ?thesis
  proof (cases "readSource w f")
    case None
    with Parsed show ?thesis
      by (simp add: isFileProcessed_def)
  next
    case (Some content)
    with Parsed show ?thesis
      by (auto simp: isFileProcessed_def Let_def images_present_list_all)
  qed
qed

text \<open>
  C3. A document that changed since the last pass is not processed again. In the
  synced collection the document is edited, so its fingerprint is no longer the recorded
  one and the change check, asked about this disk, says that the document has to be
  processed; but the next pass finds mapping.json and throws the TypeError of the call of
  \<open>log\<close> before the change check is reached (the defect of C5), and the rewritten
  document stays the one of the old text.
\<close>

theorem changed_document_not_reprocessed:
  "lastProcessedHash synced_mapping =
     Some (calculateFileHash online ''![x](http://h/a.png)'') \<and>
   calculateFileHash online ''![x](http://h/a.png) and more'' \<noteq>
     calculateFileHash online ''![x](http://h/a.png)'' \<and>
   readSource edited_collection ''a.md'' = Some ''![x](http://h/a.png) and more'' \<and>
   mapping_json edited_collection = Parsed synced_mapping \<and>
   outputs edited_collection = [(''a.md'', ''![x](images/0e000000.jpg)'')] \<and>
   isFileProcessed online edited_collection ''a.md'' = False \<and>
   processFolder online edited_collection = Inl (TypeError ''log is not a function'')"
  by code_simp

section \<open>Association lists\<close>

lemma keys_map_of: "n \<in> keys al \<longleftrightarrow> map_of al n \<noteq> None"
  by (simp add: keys_def map_of_eq_None_iff)

lemma keys_update [simp]: "keys (AList.update k v al) = insert k (keys al)"
  by (simp add: keys_def dom_update)

lemma keys_Nil [simp]: "keys [] = {}"
  by (simp add: keys_def)

lemma keys_Cons [simp]: "keys (e # al) = insert (fst e) (keys al)"
  by (simp add: keys_def)

lemma keys_delete [simp]: "keys (AList.delete k al) = keys al - {k}"
  by (simp add: keys_def flip: set_map) (simp add: delete_keys)

lemma keys_filter: "keys (filter (\<lambda>f. fst f \<in> A) al) = keys al \<inter> A"
  by (auto simp: keys_def)

lemma has_image_keys: "existsSync w (ImageFile n) \<longleftrightarrow> n \<in> keys (images w)"
  by (simp add: keys_map_of)

lemma set_set_add [simp]: "set (set_add x xs) = insert x (set xs)"
  by (auto simp: set_add_def)

lemma foldl_set_add:
  "set (foldl (\<lambda>used i. set_add (g i) used) used0 refs) = set used0 \<union> g ` set refs"
  by (induction refs arbitrary: used0) auto

lemma list_all_update:
  "list_all P al \<Longrightarrow> P (k, v) \<Longrightarrow> list_all P (AList.update k v al)"
  by (induction al) auto

lemma list_all_delete: "list_all P al \<Longrightarrow> list_all P (AList.delete k al)"
  by (induction al) auto

lemma list_all_map_of:
  "list_all P al \<Longrightarrow> map_of al k = Some v \<Longrightarrow> P (k, v)"
  by (auto simp: list_all_iff dest: map_of_SomeD)

section \<open>What a download changes\<close>

lemma untouched_refl [simp]: "untouched w w"
  by (simp add: untouched_def)

lemma untouched_trans: "untouched a b \<Longrightarrow> untouched b c \<Longrightarrow> untouched a c"
  by (simp add: untouched_def)

lemma request_effect:
  "request rt c a u w = (w1, res) \<Longrightarrow>
   untouched w w1 \<and> images w1 = images w \<and> missing_images_json w1 = missing_images_json w"
  by (cases u) (auto simp: request_def untouched_def)

lemma download_attempts_image:
  "download_attempts rt c k a u (ImageFile n) w = (w', res) \<Longrightarrow>
   untouched w w' \<and> missing_images_json w' = missing_images_json w \<and>
   (if res = Inr True then \<exists>body. images w' = AList.update n body (images w)
    else images w' = images w)"
proof (induction k arbitrary: a w)
  case 0
  then show ?case
    by auto
next
  case (Suc k)
  obtain w1 r1 where req: "request rt c a u w = (w1, r1)"
    by (cases "request rt c a u w")
  note eff = request_effect [OF req]
  show ?case
  proof (cases r1)
    case (Inr body)
    with Suc.prems req eff show ?thesis
      by (auto simp: untouched_def)
  next
    case (Inl msg)
    show ?thesis
    proof (cases "a = RETRY_COUNT rt")
      case True
      with Suc.prems req eff Inl show ?thesis
        by auto
    next
      case False
      with Suc.prems req Inl
      have "download_attempts rt c k (a + 1) u (ImageFile n) w1 = (w', res)"
        by simp
      from Suc.IH [OF this] eff show ?thesis
        by (auto simp: untouched_def)
    qed
  qed
qed

text \<open>With RETRY_COUNT at least 1 the loop ends with a file written or with an
  error thrown, not with \<open>false\<close>.\<close>

lemma download_attempts_completes:
  "a + k = RETRY_COUNT rt + 1 \<Longrightarrow> 0 < k \<Longrightarrow>
   download_attempts rt c k a u dest w = (w', res) \<Longrightarrow> res \<noteq> Inr False"
proof (induction k arbitrary: a w)
  case 0
  then show ?case
    by simp
next
  case (Suc k)
  obtain w1 r1 where req: "request rt c a u w = (w1, r1)"
    by (cases "request rt c a u w")
  show ?case
  proof (cases r1)
    case (Inr body)
    with Suc.prems req show ?thesis
      by auto
  next
    case (Inl msg)
    show ?thesis
    proof (cases "a = RETRY_COUNT rt")
      case True
      with Suc.prems req Inl show ?thesis
        by auto
    next
      case False
      with Suc.prems req Inl
      have "download_attempts rt c k (a + 1) u dest w1 = (w', res)"
        by simp
      moreover from Suc.prems False have "(a + 1) + k = RETRY_COUNT rt + 1" "0 < k"
        by simp_all
      ultimately show ?thesis
        using Suc.IH by blast
    qed
  qed
qed

text \<open>With RETRY_COUNT at 0 the loop makes no round: nothing is requested or
  written, and the call returns \<open>false\<close>.\<close>

lemma download_attempts_none:
  "RETRY_COUNT rt = 0 \<Longrightarrow>
   download_attempts rt c (RETRY_COUNT rt) 1 u dest w = (w, Inr False)"
  by simp

section \<open>The launch loop and the awaited promises\<close>

lemma launch_pass:
  "keys (mapping (pass (launch rt w st i))) = insert (local_name rt i) (keys (mapping (pass st)))"
  "set (usedImageFiles (pass (launch rt w st i))) =
     insert (local_name rt i) (set (usedImageFiles (pass st)))"
  "missingImages (pass (launch rt w st i)) = missingImages (pass st)"
  by (simp_all add: launch_def Let_def)

lemma launch_promises:
  "downloadPromises (launch rt w st i) = downloadPromises st \<and>
     existsSync w (ImageFile (local_name rt i)) \<or>
   (\<exists>d. downloadPromises (launch rt w st i) = downloadPromises st @ [d] \<and>
        well_launched rt d \<and> promise_ref d = i)"
  by (simp add: launch_def Let_def well_launched_def downloadImage_start_def)

lemma foldl_launch_pass:
  "keys (mapping (pass (foldl (launch rt w) st refs))) =
     keys (mapping (pass st)) \<union> local_name rt ` set refs"
  "set (usedImageFiles (pass (foldl (launch rt w) st refs))) =
     set (usedImageFiles (pass st)) \<union> local_name rt ` set refs"
  "missingImages (pass (foldl (launch rt w) st refs)) = missingImages (pass st)"
  by (induction refs arbitrary: st) (auto simp: launch_pass)

lemma foldl_launch_promises:
  "list_all (well_launched rt) (downloadPromises st) \<Longrightarrow>
   list_all (well_launched rt) (downloadPromises (foldl (launch rt w) st refs))"
proof (induction refs arbitrary: st)
  case Nil
  then show ?case
    by simp
next
  case (Cons i refs)
  from launch_promises [of rt w st i] Cons.prems
  have "list_all (well_launched rt) (downloadPromises (launch rt w st i))"
    by auto
  then show ?case
    by (simp add: Cons.IH)
qed

lemma foldl_launch_grows:
  "set (downloadPromises st) \<subseteq> set (downloadPromises (foldl (launch rt w) st refs))"
proof (induction refs arbitrary: st)
  case Nil
  then show ?case
    by simp
next
  case (Cons i refs)
  from launch_promises [of rt w st i]
  have "set (downloadPromises st) \<subseteq> set (downloadPromises (launch rt w st i))"
    by auto
  with Cons.IH [of "launch rt w st i"] show ?case
    by auto
qed

lemma foldl_launch_covers:
  "i \<in> set refs \<Longrightarrow>
   existsSync w (ImageFile (local_name rt i)) \<or>
   local_name rt i \<in> (\<lambda>d. local_name rt (promise_ref d)) `
                       set (downloadPromises (foldl (launch rt w) st refs))"
proof (induction refs arbitrary: st)
  case Nil
  then show ?case
    by simp
next
  case (Cons j refs)
  show ?case
  proof (cases "i = j")
    case True
    have "existsSync w (ImageFile (local_name rt j)) \<or>
          (\<exists>d\<in>set (downloadPromises (launch rt w st j)). promise_ref d = j)"
      using launch_promises [of rt w st j] by (auto simp del: existsSync.simps)
    then show ?thesis
    proof
      assume "existsSync w (ImageFile (local_name rt j))"
      with True show ?thesis
        by simp
    next
      assume "\<exists>d\<in>set (downloadPromises (launch rt w st j)). promise_ref d = j"
      then obtain d where d: "d \<in> set (downloadPromises (launch rt w st j))" "promise_ref d = j"
        by blast
      with foldl_launch_grows [of "launch rt w st j" rt w refs]
      have "d \<in> set (downloadPromises (foldl (launch rt w) st (j # refs)))"
        by auto
      with d True show ?thesis
        by force
    qed
  next
    case False
    with Cons.prems have "i \<in> set refs"
      by simp
    from Cons.IH [OF this, of "launch rt w st j"] show ?thesis
      by simp
  qed
qed

lemma launch_names:
  "(\<lambda>d. local_name rt (promise_ref d)) ` set (downloadPromises (launch rt w st i)) \<subseteq>
     insert (local_name rt i) ((\<lambda>d. local_name rt (promise_ref d)) ` set (downloadPromises st))"
  using launch_promises [of rt w st i] by (auto simp del: existsSync.simps)

lemma foldl_launch_names:
  "(\<lambda>d. local_name rt (promise_ref d)) ` set (downloadPromises (foldl (launch rt w) st refs)) \<subseteq>
     (\<lambda>d. local_name rt (promise_ref d)) ` set (downloadPromises st) \<union> local_name rt ` set refs"
proof (induction refs arbitrary: st)
  case Nil
  then show ?case
    by simp
next
  case (Cons i refs)
  from Cons.IH [of "launch rt w st i"] launch_names [of rt w st i] show ?case
    by (simp del: existsSync.simps) blast
qed

lemma settle_effect:
  assumes "well_launched rt d" and "settle rt f (w, st) d = (w1, st1)"
  shows "untouched w w1"
    and "keys (images w) \<subseteq> keys (images w1)"
    and "mapping (pass st1) = mapping (pass st)"
    and "usedImageFiles (pass st1) = usedImageFiles (pass st)"
    and "keys (missingImages (pass st)) \<subseteq> keys (missingImages (pass st1))"
    and "keys (missingImages (pass st1)) \<subseteq>
           insert (local_name rt (promise_ref d)) (keys (missingImages (pass st)))"
    and "RETRY_COUNT rt = 0 \<or>
         local_name rt (promise_ref d) \<in> keys (images w1) \<union> keys (missingImages (pass st1))"
    and "list_all placed (missingImages (pass st)) \<longrightarrow>
         list_all placed (missingImages (pass st1))"
proof -
  let ?n = "local_name rt (promise_ref d)"
  let ?c = "promise_call d"
  from assms(1) have path: "promise_path d = ImageFile ?n" and fl: "in_flight d"
    by (simp_all add: well_launched_def)
  obtain w2 res where
    dl: "download_attempts rt ?c (RETRY_COUNT rt) 1 (Some (promise_url d)) (ImageFile ?n) w =
           (w2, res)"
    by (cases "download_attempts rt ?c (RETRY_COUNT rt) 1 (Some (promise_url d)) (ImageFile ?n) w")
  note eff = download_attempts_image [OF dl]
  from assms(2) path fl dl have w1: "w1 = w2"
    by (auto simp: settle_def downloadImage_rest_def split: sum.splits)
  show "untouched w w1"
    using eff w1 by simp
  show "keys (images w) \<subseteq> keys (images w1)"
    using eff w1 by (cases "res = Inr True") auto
  show "mapping (pass st1) = mapping (pass st)"
    using assms(2) path fl dl by (auto simp: settle_def downloadImage_rest_def split: sum.splits)
  show "usedImageFiles (pass st1) = usedImageFiles (pass st)"
    using assms(2) path fl dl by (auto simp: settle_def downloadImage_rest_def split: sum.splits)
  show "keys (missingImages (pass st)) \<subseteq> keys (missingImages (pass st1))"
    using assms(2) path fl dl by (auto simp: settle_def downloadImage_rest_def split: sum.splits)
  show "keys (missingImages (pass st1)) \<subseteq> insert ?n (keys (missingImages (pass st)))"
    using assms(2) path fl dl by (auto simp: settle_def downloadImage_rest_def split: sum.splits)
  show "RETRY_COUNT rt = 0 \<or> ?n \<in> keys (images w1) \<union> keys (missingImages (pass st1))"
  proof (cases "RETRY_COUNT rt = 0")
    case True
    then show ?thesis
      by simp
  next
    case False
    have compl: "res \<noteq> Inr False"
      using False by (intro download_attempts_completes [OF _ _ dl]) simp_all
    show ?thesis
    proof (cases res)
      case (Inl msg)
      with assms(2) path fl dl show ?thesis
        by (auto simp: settle_def downloadImage_rest_def)
    next
      case (Inr b)
      with compl have "res = Inr True"
        by simp
      with eff w1 show ?thesis
        by auto
    qed
  qed
  show "list_all placed (missingImages (pass st)) \<longrightarrow> list_all placed (missingImages (pass st1))"
  proof (cases res)
    case (Inl msg)
    have "placed (?n, missing_entry rt f msg d)"
      using path by (simp add: placed_def missing_entry_def)
    moreover from assms(2) path fl dl Inl
    have "missingImages (pass st1) =
            AList.update ?n (missing_entry rt f msg d) (missingImages (pass st))"
      by (auto simp: settle_def downloadImage_rest_def)
    ultimately show ?thesis
      by (simp add: list_all_update)
  next
    case (Inr b)
    with assms(2) path fl dl have "missingImages (pass st1) = missingImages (pass st)"
      by (auto simp: settle_def downloadImage_rest_def)
    then show ?thesis
      by simp
  qed
qed

lemma foldl_settle_effect:
  assumes "list_all (well_launched rt) ds" and "foldl (settle rt f) (w, st) ds = (w1, st1)"
  shows "untouched w w1 \<and> keys (images w) \<subseteq> keys (images w1) \<and>
         mapping (pass st1) = mapping (pass st) \<and>
         usedImageFiles (pass st1) = usedImageFiles (pass st) \<and>
         keys (missingImages (pass st)) \<subseteq> keys (missingImages (pass st1)) \<and>
         keys (missingImages (pass st1)) \<subseteq>
           keys (missingImages (pass st)) \<union> (\<lambda>d. local_name rt (promise_ref d)) ` set ds \<and>
         (RETRY_COUNT rt = 0 \<or>
          (\<lambda>d. local_name rt (promise_ref d)) ` set ds \<subseteq>
            keys (images w1) \<union> keys (missingImages (pass st1))) \<and>
         (list_all placed (missingImages (pass st)) \<longrightarrow>
          list_all placed (missingImages (pass st1)))"
  using assms
proof (induction ds arbitrary: w st)
  case Nil
  then show ?case
    by simp
next
  case (Cons d ds)
  obtain w2 st2 where s: "settle rt f (w, st) d = (w2, st2)"
    by (cases "settle rt f (w, st) d")
  from Cons.prems(1) have wl: "well_launched rt d" and rest: "list_all (well_launched rt) ds"
    by simp_all
  note e = settle_effect [OF wl s]
  from Cons.prems(2) s have "foldl (settle rt f) (w2, st2) ds = (w1, st1)"
    by simp
  note ih = Cons.IH [OF rest this]
  from e(1) ih have "untouched w w1"
    using untouched_trans by blast
  moreover from e(2) ih have "keys (images w) \<subseteq> keys (images w1)"
    by blast
  moreover from e(3) ih have "mapping (pass st1) = mapping (pass st)"
    by simp
  moreover from e(4) ih have "usedImageFiles (pass st1) = usedImageFiles (pass st)"
    by simp
  moreover from e(5) ih have "keys (missingImages (pass st)) \<subseteq> keys (missingImages (pass st1))"
    by blast
  moreover from e(6) ih
  have "keys (missingImages (pass st1)) \<subseteq>
          keys (missingImages (pass st)) \<union>
          (\<lambda>d. local_name rt (promise_ref d)) ` set (d # ds)"
    by auto
  moreover
  have "RETRY_COUNT rt = 0 \<or>
        (\<lambda>d. local_name rt (promise_ref d)) ` set (d # ds) \<subseteq>
          keys (images w1) \<union> keys (missingImages (pass st1))"
  proof (cases "RETRY_COUNT rt = 0")
    case True
    then show ?thesis
      by simp
  next
    case False
    with e(7) have here: "local_name rt (promise_ref d) \<in>
        keys (images w2) \<union> keys (missingImages (pass st2))"
      by simp
    from False ih have there: "(\<lambda>d. local_name rt (promise_ref d)) ` set ds \<subseteq>
        keys (images w1) \<union> keys (missingImages (pass st1))"
      by simp
    from ih have grow: "keys (images w2) \<subseteq> keys (images w1)"
      "keys (missingImages (pass st2)) \<subseteq> keys (missingImages (pass st1))"
      by simp_all
    from here there grow show ?thesis
      by auto
  qed
  moreover from e(8) ih
  have "list_all placed (missingImages (pass st)) \<longrightarrow> list_all placed (missingImages (pass st1))"
    by simp
  ultimately show ?case
    by blast
qed

lemma concat_chunks_from: "concat (chunks_from i ps) = drop i ps"
proof (induction i ps rule: chunks_from.induct)
  case (1 i ps)
  show ?case
  proof (cases "i < length ps")
    case True
    have "concat (chunks_from i ps) =
        take MAX_CONCURRENT (drop i ps) @ concat (chunks_from (i + MAX_CONCURRENT) ps)"
      using True by (subst chunks_from.simps) simp
    also have "concat (chunks_from (i + MAX_CONCURRENT) ps) = drop (i + MAX_CONCURRENT) ps"
      using True by (rule "1")
    also have "drop (i + MAX_CONCURRENT) ps = drop MAX_CONCURRENT (drop i ps)"
      by (simp add: add.commute)
    also have "take MAX_CONCURRENT (drop i ps) @ drop MAX_CONCURRENT (drop i ps) = drop i ps"
      by (rule append_take_drop_id)
    finally show ?thesis .
  next
    case False
    then show ?thesis
      by (subst chunks_from.simps) simp
  qed
qed

lemma foldl_foldl_concat: "foldl (\<lambda>a xs. foldl g a xs) a xss = foldl g a (concat xss)"
  by (induction xss arbitrary: a) simp_all

lemma await_all:
  "await_chunks rt f ws (chunks_from 0 ps) = foldl (settle rt f) ws ps"
  unfolding await_chunks_def by (subst foldl_foldl_concat) (simp add: concat_chunks_from)

lemma keys_set_metadata [simp]: "keys (set_metadata h t m) = insert ''_metadata'' (keys m)"
  by (simp add: set_metadata_def)

lemma lastProcessedHash_set_metadata:
  "h \<noteq> [] \<Longrightarrow> lastProcessedHash (set_metadata h t m) = Some h"
  by (simp add: lastProcessedHash_def set_metadata_def update_conv')

lemma new_date_effect:
  "new_date rt w = (w', t) \<Longrightarrow>
   untouched w w' \<and> images w' = images w \<and> missing_images_json w' = missing_images_json w"
  by (auto simp: new_date_def untouched_def)

lemma localize_file_effect:
  assumes "localize_file rt f content w p = (w', p', res)"
  defines "N \<equiv> local_name rt ` set (extractImageUrls content)"
  shows "sources w' = sources w"
    and "keys (images w) \<subseteq> keys (images w')"
    and "keys (mapping p') = insert ''_metadata'' (keys (mapping p) \<union> N)"
    and "set (usedImageFiles p') = set (usedImageFiles p) \<union> N"
    and "keys (missingImages p) \<subseteq> keys (missingImages p')"
    and "keys (missingImages p') \<subseteq> keys (missingImages p) \<union> N"
    and "RETRY_COUNT rt = 0 \<or> N \<subseteq> keys (images w') \<union> keys (missingImages p')"
    and "list_all placed (missingImages p) \<longrightarrow> list_all placed (missingImages p')"
    and "mapping_json w' = mapping_json w"
    and "processed res \<and> \<not> skipped res"
proof -
  let ?refs = "extractImageUrls content"
  let ?name = "\<lambda>d. local_name rt (promise_ref d)"
  define st0 where "st0 = launch_all rt w p ?refs"
  define w0 where "w0 = w\<lparr>downloads := downloads w + length (downloadPromises st0)\<rparr>"
  obtain w1 st where aw: "foldl (settle rt f) (w0, st0) (downloadPromises st0) = (w1, st)"
    by (cases "foldl (settle rt f) (w0, st0) (downloadPromises st0)")
  have wl: "list_all (well_launched rt) (downloadPromises st0)"
    unfolding st0_def launch_all_def by (rule foldl_launch_promises) simp
  note e = foldl_settle_effect [OF wl aw]
  have w0: "untouched w w0" "images w0 = images w"
    by (simp_all add: w0_def untouched_def)
  have m0: "keys (mapping (pass st0)) = keys (mapping p) \<union> N"
    and u0: "set (usedImageFiles (pass st0)) = set (usedImageFiles p) \<union> N"
    and l0: "missingImages (pass st0) = missingImages p"
    unfolding st0_def launch_all_def N_def by (simp_all add: foldl_launch_pass)
  have names: "?name ` set (downloadPromises st0) \<subseteq> N"
    unfolding st0_def launch_all_def N_def
    using foldl_launch_names
      [of rt w "\<lparr>pass = p, downloadedCount = 0, downloadResults = [], downloadPromises = []\<rparr>"
        ?refs]
    by simp
  have cover: "N \<subseteq> keys (images w) \<union> ?name ` set (downloadPromises st0)"
  proof
    fix n
    assume "n \<in> N"
    then obtain i where i: "i \<in> set ?refs" "n = local_name rt i"
      by (auto simp: N_def)
    from foldl_launch_covers [OF i(1), of w rt] i(2) show
      "n \<in> keys (images w) \<union> ?name ` set (downloadPromises st0)"
      unfolding st0_def launch_all_def has_image_keys by blast
  qed
  obtain w3 t where nd:
    "new_date rt (writeFileSync (OutputDoc f)
       (foldl (rewrite_link (downloadResults st)) content ?refs) w1) = (w3, t)"
    by (cases "new_date rt (writeFileSync (OutputDoc f)
       (foldl (rewrite_link (downloadResults st)) content ?refs) w1)")
  from assms(1) aw nd have w': "w' = w3"
    and p': "p' = (pass st)\<lparr>mapping := set_metadata (calculateFileHash rt content) t
                                  (mapping (pass st))\<rparr>"
    and res: "processed res \<and> \<not> skipped res"
    by (auto simp: localize_file_def Let_def await_all st0_def w0_def)
  from new_date_effect [OF nd] have w3: "sources w3 = sources w1" "images w3 = images w1"
    "mapping_json w3 = mapping_json w1"
    by (simp_all add: untouched_def)
  from e have e_unt: "untouched w0 w1"
    and e_img: "keys (images w0) \<subseteq> keys (images w1)"
    and e_map: "mapping (pass st) = mapping (pass st0)"
    and e_used: "usedImageFiles (pass st) = usedImageFiles (pass st0)"
    and e_lo: "keys (missingImages p) \<subseteq> keys (missingImages (pass st))"
    and e_hi: "keys (missingImages (pass st)) \<subseteq>
                 keys (missingImages p) \<union> ?name ` set (downloadPromises st0)"
    and e_cov: "RETRY_COUNT rt = 0 \<or> ?name ` set (downloadPromises st0) \<subseteq>
                  keys (images w1) \<union> keys (missingImages (pass st))"
    and e_pl: "list_all placed (missingImages p) \<longrightarrow> list_all placed (missingImages (pass st))"
    unfolding l0 by blast+
  from p' have pm: "missingImages p' = missingImages (pass st)"
    and pu: "usedImageFiles p' = usedImageFiles (pass st)"
    and pk: "keys (mapping p') = insert ''_metadata'' (keys (mapping (pass st)))"
    by simp_all
  show "sources w' = sources w"
    unfolding w' w3 using e_unt w0 by (simp add: untouched_def)
  show "mapping_json w' = mapping_json w"
    unfolding w' w3 using e_unt w0 by (simp add: untouched_def)
  show "keys (images w) \<subseteq> keys (images w')"
    unfolding w' w3 using e_img w0 by simp
  show "keys (mapping p') = insert ''_metadata'' (keys (mapping p) \<union> N)"
    unfolding pk e_map m0 by (rule refl)
  show "set (usedImageFiles p') = set (usedImageFiles p) \<union> N"
    unfolding pu e_used u0 by (rule refl)
  show "keys (missingImages p) \<subseteq> keys (missingImages p')"
    unfolding pm by (rule e_lo)
  show "keys (missingImages p') \<subseteq> keys (missingImages p) \<union> N"
    unfolding pm using e_hi names by blast
  show "RETRY_COUNT rt = 0 \<or> N \<subseteq> keys (images w') \<union> keys (missingImages p')"
  proof (cases "RETRY_COUNT rt = 0")
    case True
    then show ?thesis
      by simp
  next
    case False
    with e_cov have c: "?name ` set (downloadPromises st0) \<subseteq>
        keys (images w1) \<union> keys (missingImages (pass st))"
      by simp
    from e_img w0 have g: "keys (images w) \<subseteq> keys (images w1)"
      by simp
    have "N \<subseteq> keys (images w1) \<union> keys (missingImages (pass st))"
      using cover c g by blast
    then show ?thesis
      unfolding pm w' w3 by simp
  qed
  show "list_all placed (missingImages p) \<longrightarrow> list_all placed (missingImages p')"
    unfolding pm by (rule e_pl)
  show "processed res \<and> \<not> skipped res"
    by (rule res)
qed

section \<open>The invariant of a pass\<close>

lemma refs_of_sources: "sources w' = sources w \<Longrightarrow> refs_of rt w' f = refs_of rt w f"
  by (simp add: refs_of_def readSource_def)

lemma skip_file_effect:
  assumes "skip_file rt content w p = (w', p', res)"
  shows "w' = w" and "missingImages p' = missingImages p" and "mapping p' = mapping p"
    and "set (usedImageFiles p') =
           set (usedImageFiles p) \<union> local_name rt ` set (extractImageUrls content)"
    and "processed res \<and> skipped res"
  using assms by (auto simp: skip_file_def foldl_set_add)

lemma copy_file_effect:
  assumes "copy_file rt f content w p = (w', p', res)"
  shows "sources w' = sources w" and "images w' = images w"
    and "missingImages p' = missingImages p" and "usedImageFiles p' = usedImageFiles p"
    and "keys (mapping p') = insert ''_metadata'' (keys (mapping p))"
    and "\<exists>t. mapping_json w' = Parsed (set_metadata (calculateFileHash rt content) t (mapping p))"
    and "processed res \<and> \<not> skipped res"
proof -
  obtain w2 t where nd: "new_date rt (writeFileSync (OutputDoc f) content w) = (w2, t)"
    by (cases "new_date rt (writeFileSync (OutputDoc f) content w)")
  from new_date_effect [OF nd] have w2: "sources w2 = sources w" "images w2 = images w"
    by (simp_all add: untouched_def)
  from assms nd have w': "w' = w2\<lparr>mapping_json :=
        Parsed (set_metadata (calculateFileHash rt content) t (mapping p))\<rparr>"
    and p': "p' = p\<lparr>mapping := set_metadata (calculateFileHash rt content) t (mapping p)\<rparr>"
    and res: "processed res \<and> \<not> skipped res"
    by (auto simp: copy_file_def Let_def)
  show "sources w' = sources w" "images w' = images w"
    unfolding w' using w2 by simp_all
  show "missingImages p' = missingImages p" "usedImageFiles p' = usedImageFiles p"
    "keys (mapping p') = insert ''_metadata'' (keys (mapping p))"
    unfolding p' by simp_all
  show "\<exists>t. mapping_json w' = Parsed (set_metadata (calculateFileHash rt content) t (mapping p))"
    unfolding w' by auto
  show "processed res \<and> \<not> skipped res"
    by (rule res)
qed

lemma pass_invI:
  assumes "keys (missingImages p) \<subseteq> keys (mapping p)"
    and "keys (missingImages p) \<subseteq> set (usedImageFiles p)"
    and "keys (mapping p) \<subseteq> insert ''_metadata'' S"
    and "S \<subseteq> set (usedImageFiles p)"
    and "set (usedImageFiles p) \<subseteq> S"
    and "list_all placed (missingImages p)"
    and "RETRY_COUNT rt = 0 \<or> S \<subseteq> keys (images w) \<union> keys (missingImages p)"
  shows "pass_inv rt S w p"
  using assms by (simp add: pass_inv_def)

lemma pass_invD:
  assumes "pass_inv rt S w p"
  shows "keys (missingImages p) \<subseteq> keys (mapping p)"
    and "keys (missingImages p) \<subseteq> set (usedImageFiles p)"
    and "keys (mapping p) \<subseteq> insert ''_metadata'' S"
    and "S \<subseteq> set (usedImageFiles p)"
    and "set (usedImageFiles p) \<subseteq> S"
    and "list_all placed (missingImages p)"
    and "RETRY_COUNT rt = 0 \<or> S \<subseteq> keys (images w) \<union> keys (missingImages p)"
  using assms by (simp_all add: pass_inv_def)

lemma skip_file_inv:
  assumes "pass_inv rt S w p" and "skip_file rt content w p = (w', p', res)"
    and "list_all (\<lambda>i. existsSync w (ImageFile (local_name rt i))) (extractImageUrls content)"
  shows "pass_inv rt (S \<union> local_name rt ` set (extractImageUrls content)) w' p'"
proof -
  let ?N = "local_name rt ` set (extractImageUrls content)"
  note e = skip_file_effect [OF assms(2)]
  note i = pass_invD [OF assms(1)]
  from assms(3) have present: "?N \<subseteq> keys (images w)"
    by (auto simp: list_all_iff has_image_keys simp del: existsSync.simps)
  show ?thesis
  proof (rule pass_invI)
    show "keys (missingImages p') \<subseteq> keys (mapping p')"
      unfolding e(2) e(3) by (rule i(1))
    show "keys (missingImages p') \<subseteq> set (usedImageFiles p')"
      unfolding e(2) e(4) using i(2) by blast
    show "keys (mapping p') \<subseteq> insert ''_metadata'' (S \<union> ?N)"
      unfolding e(3) using i(3) by blast
    show "S \<union> ?N \<subseteq> set (usedImageFiles p')"
      unfolding e(4) using i(4) by blast
    show "set (usedImageFiles p') \<subseteq> S \<union> ?N"
      unfolding e(4) using i(5) by blast
    show "list_all placed (missingImages p')"
      unfolding e(2) by (rule i(6))
    show "RETRY_COUNT rt = 0 \<or> S \<union> ?N \<subseteq> keys (images w') \<union> keys (missingImages p')"
      unfolding e(1) e(2) using i(7) present by blast
  qed
qed

lemma copy_file_inv:
  assumes "pass_inv rt S w p" and "copy_file rt f content w p = (w', p', res)"
  shows "pass_inv rt S w' p'"
proof -
  note e = copy_file_effect [OF assms(2)]
  note i = pass_invD [OF assms(1)]
  show ?thesis
  proof (rule pass_invI)
    show "keys (missingImages p') \<subseteq> keys (mapping p')"
      unfolding e(3) e(5) using i(1) by blast
    show "keys (missingImages p') \<subseteq> set (usedImageFiles p')"
      unfolding e(3) e(4) by (rule i(2))
    show "keys (mapping p') \<subseteq> insert ''_metadata'' S"
      unfolding e(5) using i(3) by blast
    show "S \<subseteq> set (usedImageFiles p')"
      unfolding e(4) by (rule i(4))
    show "set (usedImageFiles p') \<subseteq> S"
      unfolding e(4) by (rule i(5))
    show "list_all placed (missingImages p')"
      unfolding e(3) by (rule i(6))
    show "RETRY_COUNT rt = 0 \<or> S \<subseteq> keys (images w') \<union> keys (missingImages p')"
      unfolding e(2) e(3) by (rule i(7))
  qed
qed

lemma localize_file_inv:
  assumes "pass_inv rt S w p" and "localize_file rt f content w p = (w', p', res)"
  shows "pass_inv rt (S \<union> local_name rt ` set (extractImageUrls content)) w' p'"
proof -
  let ?N = "local_name rt ` set (extractImageUrls content)"
  note e = localize_file_effect [OF assms(2)]
  note i = pass_invD [OF assms(1)]
  show ?thesis
  proof (rule pass_invI)
    show "keys (missingImages p') \<subseteq> keys (mapping p')"
      unfolding e(3) using e(6) i(1) by blast
    show "keys (missingImages p') \<subseteq> set (usedImageFiles p')"
      unfolding e(4) using e(6) i(2) by blast
    show "keys (mapping p') \<subseteq> insert ''_metadata'' (S \<union> ?N)"
      unfolding e(3) using i(3) by blast
    show "S \<union> ?N \<subseteq> set (usedImageFiles p')"
      unfolding e(4) using i(4) by blast
    show "set (usedImageFiles p') \<subseteq> S \<union> ?N"
      unfolding e(4) using i(5) by blast
    show "list_all placed (missingImages p')"
      using e(8) i(6) by simp
    show "RETRY_COUNT rt = 0 \<or> S \<union> ?N \<subseteq> keys (images w') \<union> keys (missingImages p')"
    proof (cases "RETRY_COUNT rt = 0")
      case True
      then show ?thesis
        by simp
    next
      case False
      with i(7) e(7) have "S \<subseteq> keys (images w) \<union> keys (missingImages p)"
        and "?N \<subseteq> keys (images w') \<union> keys (missingImages p')"
        by simp_all
      with e(2) e(5) show ?thesis
        by blast
    qed
  qed
qed

lemma processMarkdownFile_sources:
  assumes "processMarkdownFile rt f w p = (w', p', res)"
  shows "sources w' = sources w"
proof (cases "readSource w f")
  case None
  with assms show ?thesis
    by (simp add: processMarkdownFile_def)
next
  case (Some content)
  show ?thesis
  proof (cases "isFileProcessed rt w f")
    case True
    with assms Some have "skip_file rt content w p = (w', p', res)"
      by (simp add: processMarkdownFile_def)
    from skip_file_effect(1) [OF this] show ?thesis
      by simp
  next
    case False
    show ?thesis
    proof (cases "extractImageUrls content = []")
      case True
      with assms Some False have "copy_file rt f content w p = (w', p', res)"
        by (simp add: processMarkdownFile_def)
      from copy_file_effect(1) [OF this] show ?thesis .
    next
      case nonempty: False
      with assms Some False have "localize_file rt f content w p = (w', p', res)"
        by (simp add: processMarkdownFile_def)
      from localize_file_effect(1) [OF this] show ?thesis .
    qed
  qed
qed

lemma isFileProcessed_images_present:
  "isFileProcessed rt w f \<Longrightarrow> readSource w f = Some content \<Longrightarrow>
   list_all (\<lambda>i. existsSync w (ImageFile (local_name rt i))) (extractImageUrls content)"
  unfolding isFileProcessed_iff by (auto simp del: existsSync.simps)

lemma processMarkdownFile_inv:
  assumes "pass_inv rt S w p" and "processMarkdownFile rt f w p = (w', p', res)"
  shows "pass_inv rt (S \<union> set (refs_of rt w f)) w' p'"
proof (cases "readSource w f")
  case None
  with assms show ?thesis
    by (simp add: processMarkdownFile_def refs_of_def)
next
  case (Some content)
  then have refs: "set (refs_of rt w f) = local_name rt ` set (extractImageUrls content)"
    by (simp add: refs_of_def)
  show ?thesis
  proof (cases "isFileProcessed rt w f")
    case True
    from isFileProcessed_images_present [OF True Some]
    have present: "list_all (\<lambda>i. existsSync w (ImageFile (local_name rt i)))
                     (extractImageUrls content)" .
    from assms(2) Some True have "skip_file rt content w p = (w', p', res)"
      by (simp add: processMarkdownFile_def)
    from skip_file_inv [OF assms(1) this present] show ?thesis
      unfolding refs .
  next
    case False
    show ?thesis
    proof (cases "extractImageUrls content = []")
      case True
      with assms(2) Some False have "copy_file rt f content w p = (w', p', res)"
        by (simp add: processMarkdownFile_def)
      from copy_file_inv [OF assms(1) this] True show ?thesis
        unfolding refs by simp
    next
      case nonempty: False
      with assms(2) Some False have "localize_file rt f content w p = (w', p', res)"
        by (simp add: processMarkdownFile_def)
      from localize_file_inv [OF assms(1) this] show ?thesis
        unfolding refs .
    qed
  qed
qed

lemma process_file_step:
  "processMarkdownFile rt f w p = (w1, p1, res) \<Longrightarrow>
   process_file rt (w, p, r) f = (w1, p1, count_file r res)"
  by (simp add: process_file_def)

lemma foldl_process_file_inv:
  assumes "pass_inv rt S w p" and "foldl (process_file rt) (w, p, r) fs = (w', p', r')"
  shows "pass_inv rt (S \<union> set (concat (map (refs_of rt w) fs))) w' p' \<and> sources w' = sources w"
  using assms
proof (induction fs arbitrary: S w p r)
  case Nil
  then show ?case
    by simp
next
  case (Cons f fs)
  obtain w1 p1 res where pf: "processMarkdownFile rt f w p = (w1, p1, res)"
    by (cases "processMarkdownFile rt f w p")
  from processMarkdownFile_inv [OF Cons.prems(1) pf]
  have inv1: "pass_inv rt (S \<union> set (refs_of rt w f)) w1 p1" .
  from processMarkdownFile_sources [OF pf] have so1: "sources w1 = sources w" .
  from Cons.prems(2) process_file_step [OF pf]
  have "foldl (process_file rt) (w1, p1, count_file r res) fs = (w', p', r')"
    by simp
  from Cons.IH [OF inv1 this]
  have "pass_inv rt (S \<union> set (refs_of rt w f) \<union> set (concat (map (refs_of rt w1) fs))) w' p'"
    and so': "sources w' = sources w1"
    by simp_all
  moreover have "map (refs_of rt w1) fs = map (refs_of rt w) fs"
    using refs_of_sources [OF so1] by simp
  moreover have "S \<union> set (refs_of rt w f) \<union> set (concat (map (refs_of rt w) fs)) =
                 S \<union> set (concat (map (refs_of rt w) (f # fs)))"
    by auto
  ultimately have "pass_inv rt (S \<union> set (concat (map (refs_of rt w) (f # fs)))) w' p'"
    by simp
  with so' so1 show ?case
    by simp
qed

lemma pass_inv_empty: "pass_inv rt {} w empty_pass"
  by (simp add: pass_inv_def empty_pass_def)

lemma process_files_inv:
  assumes "process_files rt (md_files w) w = (w1, p, r)"
  shows "pass_inv rt (set (asset_names rt w)) w1 p"
proof -
  from assms have "foldl (process_file rt)
      (w, empty_pass, no_files\<lparr>total := length (md_files w)\<rparr>) (md_files w) = (w1, p, r)"
    by (simp add: process_files_def)
  from foldl_process_file_inv [OF pass_inv_empty this] show ?thesis
    by (simp add: asset_names_def)
qed

section \<open>The documents a pass skips\<close>

lemma doc_texts_mem:
  "f \<in> set (md_files w) \<Longrightarrow> readSource w f = Some content \<Longrightarrow> content \<in> set (doc_texts w)"
  by (force simp: doc_texts_def)

lemma fingerprints_distinctD:
  assumes "fingerprints_distinct rt w" and "c \<in> set (doc_texts w)"
  shows "calculateFileHash rt c \<noteq> []"
    and "c' \<in> set (doc_texts w) \<Longrightarrow> calculateFileHash rt c' = calculateFileHash rt c \<Longrightarrow> c' = c"
  using assms by (auto simp: fingerprints_distinct_def list_all_iff)

lemma processMarkdownFile_skip_inv:
  assumes "skip_inv rt w0 w p" and "processMarkdownFile rt f w p = (w', p', res)"
    and "sources w = sources w0" and "f \<in> set (md_files w0)"
    and "fingerprints_distinct rt w0"
  shows "skip_inv rt w0 w' p'"
proof (cases "readSource w f")
  case None
  with assms(1,2) show ?thesis
    by (simp add: processMarkdownFile_def)
next
  case (Some content)
  from assms(3) Some have "readSource w0 f = Some content"
    by (simp add: readSource_def)
  from doc_texts_mem [OF assms(4) this] have mem: "content \<in> set (doc_texts w0)" .
  note fp = fingerprints_distinctD [OF assms(5) mem]
  from assms(1) have used: "set (usedImageFiles p) \<subseteq> keys (mapping p)"
    and mj: "mapping_json w = Absent \<or>
       (\<exists>c0\<in>set (doc_texts w0). extractImageUrls c0 = [] \<and>
          (\<exists>m. mapping_json w = Parsed m \<and>
               lastProcessedHash m = Some (calculateFileHash rt c0)))"
    by (simp_all add: skip_inv_def)
  show ?thesis
  proof (cases "isFileProcessed rt w f")
    case True
    with Some obtain m where m: "mapping_json w = Parsed m"
      and h: "lastProcessedHash m = None \<or>
              lastProcessedHash m = Some (calculateFileHash rt content)"
      unfolding isFileProcessed_iff by auto
    from mj m obtain c0 where c0: "c0 \<in> set (doc_texts w0)" "extractImageUrls c0 = []"
      "lastProcessedHash m = Some (calculateFileHash rt c0)"
      by auto
    from h c0(3) have "calculateFileHash rt c0 = calculateFileHash rt content"
      by simp
    from fp(2) [OF c0(1) this] c0(2) have none: "extractImageUrls content = []"
      by simp
    from assms(2) Some True have "skip_file rt content w p = (w', p', res)"
      by (simp add: processMarkdownFile_def)
    note e = skip_file_effect [OF this]
    from e(4) none have "set (usedImageFiles p') = set (usedImageFiles p)"
      by simp
    with used mj show ?thesis
      unfolding skip_inv_def e(1) e(3) by simp
  next
    case False
    show ?thesis
    proof (cases "extractImageUrls content = []")
      case True
      with assms(2) Some False have "copy_file rt f content w p = (w', p', res)"
        by (simp add: processMarkdownFile_def)
      note e = copy_file_effect [OF this]
      from e(6) obtain t where
        t: "mapping_json w' = Parsed (set_metadata (calculateFileHash rt content) t (mapping p))"
        by blast
      have "lastProcessedHash (set_metadata (calculateFileHash rt content) t (mapping p)) =
              Some (calculateFileHash rt content)"
        using fp(1) by (rule lastProcessedHash_set_metadata)
      with t mem True
      have "\<exists>c0\<in>set (doc_texts w0). extractImageUrls c0 = [] \<and>
              (\<exists>m. mapping_json w' = Parsed m \<and>
                   lastProcessedHash m = Some (calculateFileHash rt c0))"
        by blast
      moreover have "set (usedImageFiles p') \<subseteq> keys (mapping p')"
        unfolding e(4) e(5) using used by blast
      ultimately show ?thesis
        by (simp add: skip_inv_def)
    next
      case nonempty: False
      with assms(2) Some False have "localize_file rt f content w p = (w', p', res)"
        by (simp add: processMarkdownFile_def)
      note e = localize_file_effect [OF this]
      have "set (usedImageFiles p') \<subseteq> keys (mapping p')"
        unfolding e(3) e(4) using used by blast
      with mj show ?thesis
        unfolding skip_inv_def e(9) by simp
    qed
  qed
qed

lemma foldl_process_file_skip_inv:
  assumes "skip_inv rt w0 w p" and "foldl (process_file rt) (w, p, r) fs = (w', p', r')"
    and "sources w = sources w0" and "set fs \<subseteq> set (md_files w0)"
    and "fingerprints_distinct rt w0"
  shows "skip_inv rt w0 w' p'"
  using assms(1,2,3,4)
proof (induction fs arbitrary: w p r)
  case Nil
  then show ?case
    by simp
next
  case (Cons f fs)
  obtain w1 p1 res where pf: "processMarkdownFile rt f w p = (w1, p1, res)"
    by (cases "processMarkdownFile rt f w p")
  from Cons.prems(4) have f: "f \<in> set (md_files w0)" and fs: "set fs \<subseteq> set (md_files w0)"
    by simp_all
  from processMarkdownFile_skip_inv [OF Cons.prems(1) pf Cons.prems(3) f assms(5)]
  have inv1: "skip_inv rt w0 w1 p1" .
  from processMarkdownFile_sources [OF pf] Cons.prems(3) have so1: "sources w1 = sources w0"
    by simp
  from Cons.prems(2) process_file_step [OF pf]
  have "foldl (process_file rt) (w1, p1, count_file r res) fs = (w', p', r')"
    by simp
  from Cons.IH [OF inv1 this so1 fs] show ?case .
qed

lemma process_files_skip_inv:
  assumes "process_files rt (md_files w) w = (w1, p, r)" and "mapping_json w = Absent"
    and "fingerprints_distinct rt w"
  shows "set (usedImageFiles p) \<subseteq> keys (mapping p)"
proof -
  from assms(1) have f: "foldl (process_file rt)
      (w, empty_pass, no_files\<lparr>total := length (md_files w)\<rparr>) (md_files w) = (w1, p, r)"
    by (simp add: process_files_def)
  from assms(2) have "skip_inv rt w w empty_pass"
    by (simp add: skip_inv_def empty_pass_def)
  from foldl_process_file_skip_inv [OF this f refl subset_refl assms(3)] show ?thesis
    by (simp add: skip_inv_def)
qed

section \<open>The counts of a pass\<close>

lemma processMarkdownFile_count_inv:
  assumes "count_inv p r" and "processMarkdownFile rt f w p = (w', p', res)"
  shows "count_inv p' (count_file r res)"
proof (cases "readSource w f")
  case None
  with assms show ?thesis
    by (auto simp: processMarkdownFile_def count_file_def)
next
  case (Some content)
  show ?thesis
  proof (cases "isFileProcessed rt w f")
    case True
    with assms(2) Some have "skip_file rt content w p = (w', p', res)"
      by (simp add: processMarkdownFile_def)
    note e = skip_file_effect [OF this]
    from assms(1) e(5) show ?thesis
      unfolding count_inv_def e(3) by (auto simp: count_file_def)
  next
    case False
    have "processed res \<and> \<not> skipped res \<and> ''_metadata'' \<in> keys (mapping p')"
    proof (cases "extractImageUrls content = []")
      case True
      with assms(2) Some False have "copy_file rt f content w p = (w', p', res)"
        by (simp add: processMarkdownFile_def)
      note e = copy_file_effect [OF this]
      from e(7) show ?thesis
        unfolding e(5) by simp
    next
      case nonempty: False
      with assms(2) Some False have "localize_file rt f content w p = (w', p', res)"
        by (simp add: processMarkdownFile_def)
      note e = localize_file_effect [OF this]
      from e(10) show ?thesis
        unfolding e(3) by simp
    qed
    with assms(1) show ?thesis
      by (auto simp: count_inv_def count_file_def)
  qed
qed

lemma foldl_process_file_count_inv:
  assumes "count_inv p r" and "foldl (process_file rt) (w, p, r) fs = (w', p', r')"
  shows "count_inv p' r'"
  using assms
proof (induction fs arbitrary: w p r)
  case Nil
  then show ?case
    by simp
next
  case (Cons f fs)
  obtain w1 p1 res where pf: "processMarkdownFile rt f w p = (w1, p1, res)"
    by (cases "processMarkdownFile rt f w p")
  from processMarkdownFile_count_inv [OF Cons.prems(1) pf]
  have inv1: "count_inv p1 (count_file r res)" .
  from Cons.prems(2) process_file_step [OF pf]
  have "foldl (process_file rt) (w1, p1, count_file r res) fs = (w', p', r')"
    by simp
  from Cons.IH [OF inv1 this] show ?case .
qed

lemma process_files_count_inv:
  assumes "process_files rt fs w = (w1, p, r)"
  shows "count_inv p r"
proof -
  from assms have f: "foldl (process_file rt)
      (w, empty_pass, no_files\<lparr>total := length fs\<rparr>) fs = (w1, p, r)"
    by (simp add: process_files_def)
  have "count_inv empty_pass (no_files\<lparr>total := length fs\<rparr>)"
    by (simp add: count_inv_def no_files_def)
  from foldl_process_file_count_inv [OF this f] show ?thesis .
qed

section \<open>The Cleanup Pass\<close>

lemma keys_foldl_keep_used:
  "keys (foldl (keep_used m) c used) = keys c \<union> (keys m \<inter> set used)"
proof (induction used arbitrary: c)
  case Nil
  then show ?case
    by simp
next
  case (Cons n used)
  have "keys (keep_used m c n) = keys c \<union> (keys m \<inter> {n})"
    by (cases "map_of m n") (auto simp: keep_used_def keys_map_of)
  with Cons.IH [of "keep_used m c n"] show ?case
    by auto
qed

lemma keys_cleanedMapping:
  "keys (cleanedMapping m used) =
     (keys m \<inter> set used) \<union> (keys m \<inter> {''_metadata''})"
proof (cases "map_of m ''_metadata''")
  case None
  then have "''_metadata'' \<notin> keys m"
    by (simp add: keys_map_of)
  with None show ?thesis
    by (simp add: cleanedMapping_def keys_foldl_keep_used)
next
  case (Some v)
  then have "''_metadata'' \<in> keys m"
    by (simp add: keys_map_of)
  with Some show ?thesis
    by (auto simp: cleanedMapping_def keys_foldl_keep_used)
qed

text \<open>Every entry the rebuilt mapping has is the entry of the mapping in memory.\<close>

lemma map_of_keep_used:
  "map_of (keep_used m c n) k = (if k = n \<and> map_of m n \<noteq> None then map_of m k else map_of c k)"
  by (cases "map_of m n") (auto simp: keep_used_def update_conv')

lemma map_of_foldl_keep_used:
  "map_of c k = None \<or> map_of c k = map_of m k \<Longrightarrow>
   map_of (foldl (keep_used m) c used) k = None \<or>
   map_of (foldl (keep_used m) c used) k = map_of m k"
proof (induction used arbitrary: c)
  case Nil
  then show ?case
    by simp
next
  case (Cons n used)
  from Cons.prems have "map_of (keep_used m c n) k = None \<or>
      map_of (keep_used m c n) k = map_of m k"
    unfolding map_of_keep_used by auto
  from Cons.IH [OF this] show ?case
    by simp
qed

lemma map_of_cleanedMapping:
  "k \<in> keys (cleanedMapping m used) \<Longrightarrow> map_of (cleanedMapping m used) k = map_of m k"
proof -
  assume k: "k \<in> keys (cleanedMapping m used)"
  let ?c = "case map_of m ''_metadata'' of None \<Rightarrow> [] | Some v \<Rightarrow> [(''_metadata'', v)]"
  have "map_of ?c k = None \<or> map_of ?c k = map_of m k"
    by (cases "map_of m ''_metadata''") auto
  from map_of_foldl_keep_used [OF this, of used]
  have "map_of (cleanedMapping m used) k = None \<or> map_of (cleanedMapping m used) k = map_of m k"
    by (simp add: cleanedMapping_def)
  with k show ?thesis
    by (auto simp: keys_map_of)
qed

lemma map_of_cleanedMapping_metadata:
  "map_of (cleanedMapping m used) ''_metadata'' = map_of m ''_metadata''"
proof (cases "''_metadata'' \<in> keys m")
  case True
  then have "''_metadata'' \<in> keys (cleanedMapping m used)"
    by (simp add: keys_cleanedMapping)
  then show ?thesis
    by (rule map_of_cleanedMapping)
next
  case False
  then have "''_metadata'' \<notin> keys (cleanedMapping m used)"
    by (simp add: keys_cleanedMapping)
  with False show ?thesis
    by (simp add: keys_map_of)
qed

lemma clean_images_fields [simp]:
  "keys (images (clean_images used w)) = keys (images w) \<inter> set used"
  "mapping_json (clean_images used w) = mapping_json w"
  "missing_images_json (clean_images used w) = missing_images_json w"
  by (simp_all add: clean_images_def keys_filter)

lemma save_missing_fields [simp]:
  "missing_images_json (save_missing l w) = (if l = [] then Absent else Parsed l)"
  "images (save_missing l w) = images w"
  "mapping_json (save_missing l w) = mapping_json w"
  by (cases "missing_images_json w"; simp add: save_missing_def)+

lemma sync_documents_result:
  assumes "process_files rt fs w = (w1, p, r)"
  shows "mapping_json (fst (sync_documents rt fs w)) =
           Parsed (cleanedMapping (mapping p) (usedImageFiles p))"
    and "missing_images_json (fst (sync_documents rt fs w)) =
           (if missingImages p = [] then Absent else Parsed (missingImages p))"
    and "keys (images (fst (sync_documents rt fs w))) =
           keys (images w1) \<inter> set (usedImageFiles p)"
    and "skippedCount (snd (sync_documents rt fs w)) = skippedCount r"
    and "processedCount (snd (sync_documents rt fs w)) = processedCount r"
  using assms by (simp_all add: sync_documents_def)

lemma listed_sync_documents:
  assumes "process_files rt fs w = (w1, p, r)"
  shows "listed (fst (sync_documents rt fs w)) = keys (missingImages p)"
  unfolding listed_def sync_documents_result(2) [OF assms] by simp

lemma processFolder_pass:
  assumes "processFolder rt w = Inr (w', r)" and "md_files w \<noteq> []"
  shows "sync_documents rt (md_files w) w = (w', r)"
  using assms by (auto simp: processFolder_def split: sum.splits)

lemma asset_names_plain:
  assumes "n \<in> set (asset_names rt w)"
  shows "plain_name n" and "n \<noteq> ''_metadata''"
proof -
  from assms obtain f where "n \<in> set (refs_of rt w f)"
    by (auto simp: asset_names_def)
  then obtain i where "n = local_name rt i"
    by (cases "readSource w f") (auto simp: refs_of_def)
  then show "plain_name n" and "n \<noteq> ''_metadata''"
    using local_name_plain local_name_not_metadata by simp_all
qed

section \<open>The mapping record and the failed assets\<close>

lemma first_pass_offline:
  "processFolder offline fresh_collection = Inr (failed_collection, one_failure)"
  by code_simp

text \<open>
  C2 (counterexample). A first pass over a collection with one image, the network
  down: no file is in the images directory before or after the pass, every request
  failed, and the mapping.json the pass writes has the key of the image; the same
  asset is in the failure ledger.
\<close>

theorem failed_asset_in_mapping:
  "processFolder offline fresh_collection = Inr (failed_collection, one_failure) \<and>
   images fresh_collection = [] \<and>
   images failed_collection = [] \<and>
   requests failed_collection = 3 \<and>
   mapping_json failed_collection = Parsed synced_mapping \<and>
   map fst synced_mapping = [''_metadata'', ''0e000000.jpg''] \<and>
   missing_images_json failed_collection = Parsed failed_ledger \<and>
   map fst failed_ledger = [''0e000000.jpg'']"
  by code_simp

text \<open>
  C2 (as amended). After a pass that persists its state: every key of mapping.json
  other than the metadata key is the local name of an image of a source document of the
  collection, whatever became of its download; the set of used names of the pass is the
  set of these names; every name the failure ledger lists is a key of mapping.json and
  such a name; and, RETRY_COUNT being at least 1 (and MAX_CONCURRENT at its default),
  every image of a source document is in the images directory after the pass or listed
  in the failure ledger. So an asset
  whose download failed, and whose file is therefore absent, is entered in the ledger,
  in the used set and in mapping.json.
\<close>

theorem failed_assets_are_recorded:
  assumes "processFolder rt w = Inr (w', r)" and "md_files w \<noteq> []"
  shows "\<exists>m. mapping_json w' = Parsed m \<and>
             keys m \<subseteq> insert ''_metadata'' (set (asset_names rt w)) \<and>
             set (usedImageFiles (fst (snd (process_files rt (md_files w) w)))) =
               set (asset_names rt w) \<and>
             listed w' \<subseteq> keys m \<inter> set (asset_names rt w) \<and>
             (0 < RETRY_COUNT rt \<longrightarrow>
                set (asset_names rt w) \<subseteq> keys (images w') \<union> listed w')"
proof -
  obtain w1 p r1 where pf: "process_files rt (md_files w) w = (w1, p, r1)"
    by (cases "process_files rt (md_files w) w")
  note i = pass_invD [OF process_files_inv [OF pf]]
  let ?S = "set (asset_names rt w)"
  from processFolder_pass [OF assms] have w': "w' = fst (sync_documents rt (md_files w) w)"
    by simp
  let ?m = "cleanedMapping (mapping p) (usedImageFiles p)"
  have mj: "mapping_json w' = Parsed ?m"
    unfolding w' by (rule sync_documents_result(1) [OF pf])
  have ll: "listed w' = keys (missingImages p)"
    unfolding w' by (rule listed_sync_documents [OF pf])
  have ki: "keys (images w') = keys (images w1) \<inter> set (usedImageFiles p)"
    unfolding w' by (rule sync_documents_result(3) [OF pf])
  have c1: "keys ?m \<subseteq> insert ''_metadata'' ?S"
    unfolding keys_cleanedMapping using i(3) by blast
  have c2: "set (usedImageFiles (fst (snd (process_files rt (md_files w) w)))) = ?S"
    unfolding pf using i(4) i(5) by auto
  have c3: "listed w' \<subseteq> keys ?m \<inter> ?S"
    unfolding keys_cleanedMapping ll using i(1) i(2) i(5) by blast
  have c4: "0 < RETRY_COUNT rt \<longrightarrow> ?S \<subseteq> keys (images w') \<union> listed w'"
  proof
    assume "0 < RETRY_COUNT rt"
    with i(7) have "?S \<subseteq> keys (images w1) \<union> keys (missingImages p)"
      by simp
    with i(4) show "?S \<subseteq> keys (images w') \<union> listed w'"
      unfolding ki ll by blast
  qed
  show ?thesis
    by (rule exI [of _ ?m]) (intro conjI mj c1 c2 c3 c4)
qed

text \<open>
  The amended C2 at the pass of the counterexample.
\<close>

theorem failed_assets_are_recorded_witness:
  "processFolder offline fresh_collection = Inr (failed_collection, one_failure) \<and>
   md_files fresh_collection \<noteq> [] \<and>
   0 < RETRY_COUNT offline \<and>
   asset_names offline fresh_collection = [''0e000000.jpg''] \<and>
   keys synced_mapping \<subseteq> insert ''_metadata'' (set (asset_names offline fresh_collection)) \<and>
   set (usedImageFiles
          (fst (snd (process_files offline (md_files fresh_collection) fresh_collection)))) =
     set (asset_names offline fresh_collection) \<and>
   listed failed_collection \<subseteq> keys synced_mapping \<inter> set (asset_names offline fresh_collection) \<and>
   set (asset_names offline fresh_collection) \<subseteq>
     keys (images failed_collection) \<union> listed failed_collection \<and>
   ''0e000000.jpg'' \<in> listed failed_collection"
proof -
  have h1: "processFolder offline fresh_collection = Inr (failed_collection, one_failure)"
    by code_simp
  have h2: "md_files fresh_collection \<noteq> []"
    by code_simp
  have h3: "0 < RETRY_COUNT offline"
    by code_simp
  have names: "asset_names offline fresh_collection = [''0e000000.jpg'']"
    by code_simp
  have mj: "mapping_json failed_collection = Parsed synced_mapping"
    by (simp add: failed_collection_def)
  have im: "images failed_collection = []"
    by (simp add: failed_collection_def)
  from failed_assets_are_recorded [OF h1 h2] obtain m where
    m: "mapping_json failed_collection = Parsed m"
    and c1: "keys m \<subseteq> insert ''_metadata'' (set (asset_names offline fresh_collection))"
    and c2: "set (usedImageFiles
            (fst (snd (process_files offline (md_files fresh_collection) fresh_collection)))) =
       set (asset_names offline fresh_collection)"
    and c3: "listed failed_collection \<subseteq> keys m \<inter> set (asset_names offline fresh_collection)"
    and c4: "0 < RETRY_COUNT offline \<longrightarrow> set (asset_names offline fresh_collection) \<subseteq>
       keys (images failed_collection) \<union> listed failed_collection"
    by (elim exE conjE) (rule that; assumption)
  from m mj have ms: "m = synced_mapping"
    by simp
  note c = c1 [unfolded ms] c2 c3 [unfolded ms] c4 [rule_format, OF h3]
  from c(4) have l: "''0e000000.jpg'' \<in> listed failed_collection"
    unfolding names im by simp
  show ?thesis
    by (intro conjI h1 h2 h3 names c l)
qed

section \<open>What the Cleanup Pass keeps\<close>

text \<open>
  C6. After a pass that reaches the Cleanup Pass, the metadata entry of mapping.json
  is the metadata entry the pass built in memory, it is there whenever a document was
  processed and not skipped, and the other keys of mapping.json are exactly the used
  names of the pass. A pass reaches the Cleanup Pass only when it found no
  mapping.json; the documents it skips are then skipped on the strength of a
  mapping.json the pass itself wrote for a document without images, and with distinct
  fingerprints they are documents without images.
\<close>

theorem cleanup_keeps_metadata_and_used:
  assumes "processFolder rt w = Inr (w', r)" and "md_files w \<noteq> []"
    and "fingerprints_distinct rt w"
  shows "\<exists>m. mapping_json w' = Parsed m \<and>
             map_of m ''_metadata'' =
               map_of (mapping (fst (snd (process_files rt (md_files w) w)))) ''_metadata'' \<and>
             (skippedCount r < processedCount r \<longrightarrow> map_of m ''_metadata'' \<noteq> None) \<and>
             keys m - {''_metadata''} =
               set (usedImageFiles (fst (snd (process_files rt (md_files w) w))))"
proof -
  obtain w1 p r1 where pf: "process_files rt (md_files w) w = (w1, p, r1)"
    by (cases "process_files rt (md_files w) w")
  note i = pass_invD [OF process_files_inv [OF pf]]
  from processFolder_reaches_documents [OF assms(1,2)] have "mapping_json w = Absent" .
  from process_files_skip_inv [OF pf this assms(3)]
  have used: "set (usedImageFiles p) \<subseteq> keys (mapping p)" .
  from process_files_count_inv [OF pf] have cnt: "count_inv p r1" .
  from processFolder_pass [OF assms(1,2)]
  have sd: "sync_documents rt (md_files w) w = (w', r)" .
  then have w': "w' = fst (sync_documents rt (md_files w) w)"
    and r: "r = snd (sync_documents rt (md_files w) w)"
    by simp_all
  let ?m = "cleanedMapping (mapping p) (usedImageFiles p)"
  have mj: "mapping_json w' = Parsed ?m"
    unfolding w' by (rule sync_documents_result(1) [OF pf])
  have meta: "map_of ?m ''_metadata'' = map_of (mapping p) ''_metadata''"
    by (rule map_of_cleanedMapping_metadata)
  have counts: "skippedCount r = skippedCount r1" "processedCount r = processedCount r1"
    unfolding r by (rule sync_documents_result(4,5) [OF pf])+
  have there: "skippedCount r < processedCount r \<longrightarrow> map_of ?m ''_metadata'' \<noteq> None"
  proof
    assume "skippedCount r < processedCount r"
    with cnt counts have "''_metadata'' \<in> keys (mapping p)"
      by (auto simp: count_inv_def)
    then show "map_of ?m ''_metadata'' \<noteq> None"
      unfolding meta by (simp add: keys_map_of)
  qed
  have nometa: "''_metadata'' \<notin> set (usedImageFiles p)"
    using i(5) asset_names_plain(2) by blast
  have ks: "keys ?m - {''_metadata''} = set (usedImageFiles p)"
    unfolding keys_cleanedMapping using used nometa by blast
  from mj meta there ks show ?thesis
    unfolding pf by simp
qed

text \<open>
  C6 at a pass that skips a document: the collection of two documents with the same
  text, whose mapping.json was removed.
\<close>

theorem cleanup_keeps_metadata_and_used_witness:
  "processFolder online text_collection =
     Inr (text_collection\<lparr>mapping_json := Parsed text_mapping, clock := 1\<rparr>, one_skipped) \<and>
   md_files text_collection \<noteq> [] \<and>
   fingerprints_distinct online text_collection \<and>
   map_of text_mapping ''_metadata'' =
     map_of (mapping (fst (snd (process_files online (md_files text_collection)
                                  text_collection)))) ''_metadata'' \<and>
   map_of text_mapping ''_metadata'' \<noteq> None \<and>
   keys text_mapping - {''_metadata''} =
     set (usedImageFiles (fst (snd (process_files online (md_files text_collection)
                                      text_collection))))"
proof -
  let ?w' = "text_collection\<lparr>mapping_json := Parsed text_mapping, clock := 1\<rparr>"
  have h1: "processFolder online text_collection = Inr (?w', one_skipped)"
    by code_simp
  have h2: "md_files text_collection \<noteq> []"
    by code_simp
  have h3: "fingerprints_distinct online text_collection"
    by code_simp
  have lt: "skippedCount one_skipped < processedCount one_skipped"
    by (simp add: one_skipped_def)
  from cleanup_keeps_metadata_and_used [OF h1 h2 h3] obtain m where
    m: "mapping_json ?w' = Parsed m"
    and c1: "map_of m ''_metadata'' =
       map_of (mapping (fst (snd (process_files online (md_files text_collection)
                                    text_collection)))) ''_metadata''"
    and c2: "skippedCount one_skipped < processedCount one_skipped \<longrightarrow>
       map_of m ''_metadata'' \<noteq> None"
    and c3: "keys m - {''_metadata''} =
       set (usedImageFiles (fst (snd (process_files online (md_files text_collection)
                                        text_collection))))"
    by (elim exE conjE) (rule that; assumption)
  from m have ms: "m = text_mapping"
    by simp
  note c = c1 [unfolded ms] c2 [unfolded ms, rule_format, OF lt] c3 [unfolded ms]
  show ?thesis
    by (intro conjI h1 h2 h3 c)
qed

section \<open>The files a pass leaves\<close>

text \<open>The two JSON files a pass writes are well kept.\<close>

lemma starts_with_metadata: "starts_with ''_'' ''_metadata''"
  by (simp add: starts_with_def)

lemma sync_leaves_well_kept:
  assumes "processFolder rt w = Inr (w', r)" and "md_files w \<noteq> []"
  shows "well_kept w'"
proof -
  obtain w1 p r1 where pf: "process_files rt (md_files w) w = (w1, p, r1)"
    by (cases "process_files rt (md_files w) w")
  note i = pass_invD [OF process_files_inv [OF pf]]
  from processFolder_pass [OF assms] have w': "w' = fst (sync_documents rt (md_files w) w)"
    by simp
  let ?m = "cleanedMapping (mapping p) (usedImageFiles p)"
  have mj: "mapping_json w' = Parsed ?m"
    unfolding w' by (rule sync_documents_result(1) [OF pf])
  have lj: "missing_images_json w' =
              (if missingImages p = [] then Absent else Parsed (missingImages p))"
    unfolding w' by (rule sync_documents_result(2) [OF pf])
  have "in_place e" if e: "e \<in> set (missingImages p)" for e
  proof -
    from e have "fst e \<in> keys (missingImages p)"
      by (simp add: keys_def)
    with i(2) i(5) have "fst e \<in> set (asset_names rt w)"
      by blast
    then have "plain_name (fst e)"
      by (rule asset_names_plain)
    moreover from i(6) e have "placed e"
      by (simp add: list_all_iff)
    ultimately show ?thesis
      by (simp add: in_place_def placed_def)
  qed
  then have l: "list_all in_place (missingImages p)"
    by (simp add: list_all_iff)
  have "starts_with ''_'' (fst e) \<or> plain_name (fst e)" if e: "e \<in> set ?m" for e
  proof -
    from e have "fst e \<in> keys ?m"
      by (simp add: keys_def)
    then have "fst e \<in> insert ''_metadata'' (set (asset_names rt w))"
      unfolding keys_cleanedMapping using i(3) by blast
    then show ?thesis
      using starts_with_metadata asset_names_plain(1) by auto
  qed
  then have m: "list_all (\<lambda>e. starts_with ''_'' (fst e) \<or> plain_name (fst e)) ?m"
    by (simp add: list_all_iff)
  from l m show ?thesis
    unfolding well_kept_def mj lj by simp
qed

section \<open>What the Recovery Scanner writes\<close>

lemma image_path_plain [simp]: "plain_name n \<Longrightarrow> image_path rt n = ImageFile n"
  by (simp add: image_path_def)

lemma images_kept_iff:
  "images_kept w w' \<longleftrightarrow> (\<forall>n\<in>keys (images w). map_of (images w') n = map_of (images w) n)"
  by (auto simp: images_kept_def list_all_iff keys_def)

lemma images_kept_keys: "images_kept w w' \<Longrightarrow> keys (images w) \<subseteq> keys (images w')"
  unfolding images_kept_iff by (auto simp: keys_map_of)

lemma tryDownloadImage_image:
  assumes "tryDownloadImage rt u (ImageFile n) w = (w', res)"
  shows "untouched w w' \<and> missing_images_json w' = missing_images_json w \<and>
         (if res = Inr True then \<exists>body. images w' = AList.update n body (images w)
          else images w' = images w)"
proof -
  from assms have "download_attempts rt (downloads w) (RETRY_COUNT rt) 1 u (ImageFile n)
                     (w\<lparr>downloads := downloads w + 1\<rparr>) = (w', res)"
    by (simp add: tryDownloadImage_def)
  from download_attempts_image [OF this] show ?thesis
    by (cases "res = Inr True") (auto simp: untouched_def)
qed

lemma retry_world:
  assumes "expectedPath' item = ImageFile (fileName item)"
  shows "untouched w (fst (retry rt (w, s) item)) \<and>
         missing_images_json (fst (retry rt (w, s) item)) = missing_images_json w \<and>
         (images (fst (retry rt (w, s) item)) = images w \<or>
          (\<exists>body. images (fst (retry rt (w, s) item)) =
                    AList.update (fileName item) body (images w)))"
proof (cases s)
  case (Inl e)
  then show ?thesis
    by (simp add: retry_def)
next
  case (Inr x)
  obtain held r where x: "x = (held, r)"
    by (cases x)
  obtain w1 res where
    d: "tryDownloadImage rt (originalUrl'' item) (ImageFile (fileName item)) w = (w1, res)"
    by (cases "tryDownloadImage rt (originalUrl'' item) (ImageFile (fileName item)) w")
  from Inr x d assms have "fst (retry rt (w, s) item) = w1"
    by (auto simp: retry_def split: sum.splits option.splits)
  with tryDownloadImage_image [OF d] show ?thesis
    by (cases "res = Inr True") auto
qed

lemma foldl_retry_frame:
  assumes "list_all (\<lambda>i. expectedPath' i = ImageFile (fileName i) \<and>
                          fileName i \<notin> keys (images w0)) items"
    and "untouched w0 w" and "missing_images_json w = missing_images_json w0"
    and "images_kept w0 w"
  shows "untouched w0 (fst (foldl (retry rt) (w, s) items)) \<and>
         missing_images_json (fst (foldl (retry rt) (w, s) items)) = missing_images_json w0 \<and>
         images_kept w0 (fst (foldl (retry rt) (w, s) items))"
  using assms
proof (induction items arbitrary: w s)
  case Nil
  then show ?case
    by simp
next
  case (Cons item items)
  obtain w1 s1 where st: "retry rt (w, s) item = (w1, s1)"
    by (cases "retry rt (w, s) item")
  from Cons.prems(1) have here: "expectedPath' item = ImageFile (fileName item)"
    and absent: "fileName item \<notin> keys (images w0)"
    and rest: "list_all (\<lambda>i. expectedPath' i = ImageFile (fileName i) \<and>
                              fileName i \<notin> keys (images w0)) items"
    by simp_all
  from retry_world [OF here, of w rt s] st
  have u: "untouched w w1" and l: "missing_images_json w1 = missing_images_json w"
    and im: "images w1 = images w \<or>
             (\<exists>body. images w1 = AList.update (fileName item) body (images w))"
    by simp_all
  from Cons.prems(2) u have u1: "untouched w0 w1"
    by (rule untouched_trans)
  from Cons.prems(3) l have l1: "missing_images_json w1 = missing_images_json w0"
    by simp
  have k1: "images_kept w0 w1"
    unfolding images_kept_iff
  proof
    fix n
    assume n: "n \<in> keys (images w0)"
    with absent have "n \<noteq> fileName item"
      by auto
    with im have "map_of (images w1) n = map_of (images w) n"
      by (auto simp: update_conv')
    with Cons.prems(4) n show "map_of (images w1) n = map_of (images w0) n"
      by (simp add: images_kept_iff)
  qed
  from Cons.IH [OF rest u1 l1 k1, of s1] st show ?case
    by simp
qed

lemma scan_ledger_absent:
  assumes "well_kept w"
  shows "list_all (\<lambda>i. expectedPath' i = ImageFile (fileName i) \<and>
                        fileName i \<notin> keys (images w)) (scan_ledger rt w)"
proof (cases "missing_images_json w")
  case (Parsed l)
  with assms have "list_all in_place l"
    by (simp add: well_kept_def)
  then have "expectedPath' (ledger_item rt e) = ImageFile (fileName (ledger_item rt e)) \<and>
             fileName (ledger_item rt e) \<notin> keys (images w)"
    if "e \<in> set l" "\<not> existsSync w (image_path rt (fst e))" for e
    using that by (auto simp: list_all_iff in_place_def ledger_item_def keys_map_of)
  with Parsed show ?thesis
    by (simp add: scan_ledger_def list_all_iff)
qed (simp_all add: scan_ledger_def)

lemma foldl_mapping_item_absent:
  assumes "list_all (\<lambda>e. starts_with ''_'' (fst e) \<or> plain_name (fst e)) m"
    and "list_all (\<lambda>i. expectedPath' i = ImageFile (fileName i) \<and>
                        fileName i \<notin> keys (images w)) missing"
  shows "list_all (\<lambda>i. expectedPath' i = ImageFile (fileName i) \<and>
                        fileName i \<notin> keys (images w)) (foldl (mapping_item rt w) missing m)"
  using assms
proof (induction m arbitrary: missing)
  case Nil
  then show ?case
    by simp
next
  case (Cons e m)
  from Cons.prems(1) have e: "starts_with ''_'' (fst e) \<or> plain_name (fst e)"
    and m: "list_all (\<lambda>e. starts_with ''_'' (fst e) \<or> plain_name (fst e)) m"
    by simp_all
  from e Cons.prems(2)
  have "list_all (\<lambda>i. expectedPath' i = ImageFile (fileName i) \<and>
                       fileName i \<notin> keys (images w)) (mapping_item rt w missing e)"
    by (auto simp: mapping_item_def keys_map_of)
  from Cons.IH [OF m this] show ?case
    by simp
qed

lemma scan_missing_absent:
  assumes "well_kept w"
  shows "list_all (\<lambda>i. expectedPath' i = ImageFile (fileName i) \<and>
                        fileName i \<notin> keys (images w)) (fst (scanForMissingImages rt w))"
proof (cases "mapping_json w")
  case (Parsed m)
  with assms have "list_all (\<lambda>e. starts_with ''_'' (fst e) \<or> plain_name (fst e)) m"
    by (simp add: well_kept_def)
  from foldl_mapping_item_absent [OF this scan_ledger_absent [OF assms]] Parsed show ?thesis
    by (simp add: scanForMissingImages_def scan_mapping_def)
qed (simp_all add: scanForMissingImages_def scan_mapping_def scan_ledger_absent [OF assms])

lemma updateMissingImagesFile_effect:
  "updateMissingImagesFile held w = Inr w' \<Longrightarrow>
   untouched w w' \<and> images w' = images w \<and>
   (\<exists>l. held = Some l \<and> missing_images_json w' = (if l = [] then Absent else Parsed l))"
  by (cases held; cases "missing_images_json w")
     (auto simp: updateMissingImagesFile_def untouched_def)

lemma fix_processFolder_world:
  assumes "scanForMissingImages rt w = (missing, orphaned)"
    and "\<not> (missing = [] \<and> orphaned = [])"
    and "foldl (retry rt)
           (w, Inr (loaded_ledger w, \<lparr>fixed = 0, failed = 0, orphanedCount = length orphaned\<rparr>))
           missing = (w1, s)"
  shows "fst (fix_processFolder rt w) =
           (case s of
              Inl e \<Rightarrow> w1
            | Inr x \<Rightarrow> (case updateMissingImagesFile (fst x) w1 of Inl e \<Rightarrow> w1 | Inr w2 \<Rightarrow> w2))"
  using assms by (auto simp: fix_processFolder_def split: sum.splits prod.splits)

lemma images_kept_refl [simp]: "images_kept w w"
  by (simp add: images_kept_iff)

text \<open>On a ledger that holds \<open>null\<close> the scanner fetches the first missing image
  it knows from mapping.json and then leaves with a TypeError; the ledger is not
  written.\<close>

lemma recovery_on_null_ledger:
  "fix_processFolder online (lost_image\<lparr>missing_images_json := Null\<rparr>) =
     (synced_collection\<lparr>missing_images_json := Null, downloads := 2, requests := 2\<rparr>,
      Inl (read_null_error ''0e000000.jpg''))"
  by code_simp

text \<open>
  C9. A run of the Recovery Scanner over a collection whose two JSON files are as the
  two programs leave them changes nothing but files of the images directory that were
  absent when it scanned, the failure ledger, and the counts of downloads and requests:
  the sources, the rewritten documents, mapping.json and every file outside the
  collection are as before, and so is every file the images directory held.
\<close>

theorem recovery_leaves_collection_alone:
  assumes "well_kept w"
  shows "untouched w (fst (fix_processFolder rt w)) \<and>
         images_kept w (fst (fix_processFolder rt w))"
proof -
  obtain missing orphaned where sc: "scanForMissingImages rt w = (missing, orphaned)"
    by (cases "scanForMissingImages rt w")
  with scan_missing_absent [OF assms, of rt]
  have ab: "list_all (\<lambda>i. expectedPath' i = ImageFile (fileName i) \<and>
                           fileName i \<notin> keys (images w)) missing"
    by simp
  show ?thesis
  proof (cases "missing = [] \<and> orphaned = []")
    case True
    with sc show ?thesis
      by (simp add: fix_processFolder_def)
  next
    case False
    let ?s0 = "Inr (loaded_ledger w, \<lparr>fixed = 0, failed = 0, orphanedCount = length orphaned\<rparr>)"
    obtain w1 s where f: "foldl (retry rt) (w, ?s0) missing = (w1, s)"
      by (cases "foldl (retry rt) (w, ?s0) missing")
    from foldl_retry_frame [OF ab untouched_refl refl images_kept_refl, of rt ?s0] f
    have u: "untouched w w1" and k: "images_kept w w1"
      by simp_all
    note fw = fix_processFolder_world [OF sc False f]
    show ?thesis
    proof (cases s)
      case (Inl e)
      with fw u k show ?thesis
        by simp
    next
      case (Inr x)
      show ?thesis
      proof (cases "updateMissingImagesFile (fst x) w1")
        case (Inl e)
        with fw Inr u k show ?thesis
          by simp
      next
        case upd: (Inr w2)
        from updateMissingImagesFile_effect [OF upd]
        have "untouched w1 w2" and "images w2 = images w1"
          by simp_all
        with u k have "untouched w w2" and "images_kept w w2"
          by (auto simp: untouched_def images_kept_def)
        with fw Inr upd show ?thesis
          by simp
      qed
    qed
  qed
qed

text \<open>
  C9 at the collection that a pass with the network down leaves, the network being up
  again.
\<close>

theorem recovery_frame_witness:
  "well_kept failed_collection \<and>
   untouched failed_collection (fst (fix_processFolder online failed_collection)) \<and>
   images_kept failed_collection (fst (fix_processFolder online failed_collection)) \<and>
   images (fst (fix_processFolder online failed_collection)) = [(''0e000000.jpg'', ''PNG'')] \<and>
   missing_images_json (fst (fix_processFolder online failed_collection)) = Absent"
proof -
  have h: "well_kept failed_collection"
    by code_simp
  have r: "images (fst (fix_processFolder online failed_collection)) = [(''0e000000.jpg'', ''PNG'')]"
    "missing_images_json (fst (fix_processFolder online failed_collection)) = Absent"
    by code_simp+
  from recovery_leaves_collection_alone [OF h, of online]
  have c: "untouched failed_collection (fst (fix_processFolder online failed_collection))"
    "images_kept failed_collection (fst (fix_processFolder online failed_collection))"
    by simp_all
  show ?thesis
    by (intro conjI h c r)
qed

section \<open>The failure ledger\<close>

text \<open>With RETRY_COUNT set to 0 downloadImage returns \<open>false\<close> without a
  request, and the \<open>then\<close> callback counts a success: the pass rewrites the link,
  and leaves the image absent from the images directory and from the ledger.\<close>

lemma pass_without_attempts:
  "processFolder (offline\<lparr>env_retry_count := Some 0\<rparr>) fresh_collection =
     Inr (synced_collection\<lparr>images := [], requests := 0\<rparr>, one_document)"
  by code_simp

lemma sync_absent_is_listed:
  assumes "processFolder rt w = Inr (w', r)" and "0 < RETRY_COUNT rt"
  shows "set (asset_names rt w) \<subseteq> keys (images w') \<union> listed w'"
proof (cases "md_files w = []")
  case True
  then show ?thesis
    by (simp add: asset_names_def)
next
  case False
  obtain w1 p r1 where pf: "process_files rt (md_files w) w = (w1, p, r1)"
    by (cases "process_files rt (md_files w) w")
  note i = pass_invD [OF process_files_inv [OF pf]]
  from processFolder_pass [OF assms(1) False]
  have w': "w' = fst (sync_documents rt (md_files w) w)"
    by simp
  have ki: "keys (images w') = keys (images w1) \<inter> set (usedImageFiles p)"
    unfolding w' by (rule sync_documents_result(3) [OF pf])
  have ll: "listed w' = keys (missingImages p)"
    unfolding w' by (rule listed_sync_documents [OF pf])
  from i(7) assms(2) have "set (asset_names rt w) \<subseteq> keys (images w1) \<union> keys (missingImages p)"
    by simp
  with i(4) show ?thesis
    unfolding ki ll by blast
qed

text \<open>One round of the retry loop on a ledger that is an object.\<close>

lemma retry_object:
  assumes "expectedPath' item = ImageFile (fileName item)"
    and "list_all in_place l"
  shows "\<exists>w' l' r'. retry rt (w, Inr (Some l, r)) item = (w', Inr (Some l', r')) \<and>
           ((n \<in> keys (images w) \<longleftrightarrow> n \<notin> keys l) \<longrightarrow>
            (n \<in> keys (images w') \<longleftrightarrow> n \<notin> keys l')) \<and>
           list_all in_place l'"
proof -
  let ?m = "fileName item"
  obtain w1 res where d: "tryDownloadImage rt (originalUrl'' item) (ImageFile ?m) w = (w1, res)"
    by (cases "tryDownloadImage rt (originalUrl'' item) (ImageFile ?m) w")
  from tryDownloadImage_image [OF d]
  have eff: "if res = Inr True then \<exists>body. images w1 = AList.update ?m body (images w)
             else images w1 = images w"
    by simp
  show ?thesis
  proof (cases res)
    case (Inl msg)
    with eff have im: "images w1 = images w"
      by simp
    let ?l' = "case map_of l ?m of None \<Rightarrow> l
               | Some info \<Rightarrow> AList.update ?m (info\<lparr>error := msg\<rparr>) l"
    from assms(1) d Inl
    have st: "retry rt (w, Inr (Some l, r)) item = (w1, Inr (Some ?l', r\<lparr>failed := failed r + 1\<rparr>))"
      by (simp add: retry_def)
    have kl: "keys ?l' = keys l"
    proof (cases "map_of l ?m")
      case None
      then show ?thesis
        by simp
    next
      case (Some info)
      then have "?m \<in> keys l"
        by (simp add: keys_map_of)
      with Some show ?thesis
        by auto
    qed
    have pl: "list_all in_place ?l'"
    proof (cases "map_of l ?m")
      case None
      with assms(2) show ?thesis
        by simp
    next
      case (Some info)
      from list_all_map_of [OF assms(2) Some] have "in_place (?m, info\<lparr>error := msg\<rparr>)"
        by (simp add: in_place_def)
      with assms(2) Some show ?thesis
        by (simp add: list_all_update)
    qed
    from st im kl pl show ?thesis
      by simp
  next
    case (Inr ok)
    show ?thesis
    proof (cases ok)
      case True
      with Inr eff obtain body where im: "images w1 = AList.update ?m body (images w)"
        by auto
      from assms(1) d Inr True
      have st: "retry rt (w, Inr (Some l, r)) item =
                  (w1, Inr (Some (AList.delete ?m l), r\<lparr>fixed := fixed r + 1\<rparr>))"
        by (simp add: retry_def)
      have "(n \<in> keys (images w) \<longleftrightarrow> n \<notin> keys l) \<longrightarrow>
            (n \<in> keys (images w1) \<longleftrightarrow> n \<notin> keys (AList.delete ?m l))"
        unfolding im by auto
      with st list_all_delete [OF assms(2)] show ?thesis
        by simp
    next
      case False
      with Inr eff have im: "images w1 = images w"
        by simp
      from assms(1) d Inr False
      have "retry rt (w, Inr (Some l, r)) item = (w1, Inr (Some l, r\<lparr>failed := failed r + 1\<rparr>))"
        by (simp add: retry_def)
      with im assms(2) show ?thesis
        by simp
    qed
  qed
qed

lemma foldl_retry_object:
  assumes "list_all (\<lambda>i. expectedPath' i = ImageFile (fileName i)) items"
    and "list_all in_place l"
  shows "\<exists>w' l' r'. foldl (retry rt) (w, Inr (Some l, r)) items = (w', Inr (Some l', r')) \<and>
           ((n \<in> keys (images w) \<longleftrightarrow> n \<notin> keys l) \<longrightarrow>
            (n \<in> keys (images w') \<longleftrightarrow> n \<notin> keys l')) \<and>
           list_all in_place l'"
  using assms
proof (induction items arbitrary: w l r)
  case Nil
  then show ?case
    by simp
next
  case (Cons item items)
  from Cons.prems(1) have here: "expectedPath' item = ImageFile (fileName item)"
    and rest: "list_all (\<lambda>i. expectedPath' i = ImageFile (fileName i)) items"
    by simp_all
  from retry_object [OF here Cons.prems(2), of rt w r n] obtain w1 l1 r1 where
    st: "retry rt (w, Inr (Some l, r)) item = (w1, Inr (Some l1, r1))"
    and q1: "(n \<in> keys (images w) \<longleftrightarrow> n \<notin> keys l) \<longrightarrow>
             (n \<in> keys (images w1) \<longleftrightarrow> n \<notin> keys l1)"
    and p1: "list_all in_place l1"
    by (elim exE conjE) (rule that; assumption)
  from Cons.IH [OF rest p1, of w1 r1] obtain w' l' r' where
    f: "foldl (retry rt) (w1, Inr (Some l1, r1)) items = (w', Inr (Some l', r'))"
    and q: "(n \<in> keys (images w1) \<longleftrightarrow> n \<notin> keys l1) \<longrightarrow>
            (n \<in> keys (images w') \<longleftrightarrow> n \<notin> keys l')"
    and p: "list_all in_place l'"
    by (elim exE conjE) (rule that; assumption)
  from q1 q have "(n \<in> keys (images w) \<longleftrightarrow> n \<notin> keys l) \<longrightarrow>
                  (n \<in> keys (images w') \<longleftrightarrow> n \<notin> keys l')"
    by simp
  with st f p show ?case
    by simp
qed

text \<open>On a ledger that is \<open>null\<close> the loop ends with an error or with the ledger
  still \<open>null\<close>.\<close>

lemma foldl_retry_null:
  assumes "s = Inl e \<or> (\<exists>r. s = Inr (None, r))"
  shows "(\<exists>e'. snd (foldl (retry rt) (w, s) items) = Inl e') \<or>
         (\<exists>r'. snd (foldl (retry rt) (w, s) items) = Inr (None, r'))"
  using assms
proof (induction items arbitrary: w s e)
  case Nil
  then show ?case
    by auto
next
  case (Cons item items)
  obtain w1 s1 where st: "retry rt (w, s) item = (w1, s1)"
    by (cases "retry rt (w, s) item")
  with Cons.prems have "(\<exists>e'. s1 = Inl e') \<or> (\<exists>r. s1 = Inr (None, r))"
    by (auto simp: retry_def split: sum.splits prod.splits if_splits)
  then obtain e1 where "s1 = Inl e1 \<or> (\<exists>r. s1 = Inr (None, r))"
    by auto
  from Cons.IH [OF this, of w1] st show ?case
    by simp
qed

lemma listed_cases:
  "listed w = (case loaded_ledger w of None \<Rightarrow> {} | Some l \<Rightarrow> keys l)"
  by (cases "missing_images_json w") (simp_all add: listed_def loaded_ledger_def)

lemma loaded_ledger_in_place:
  "well_kept w \<Longrightarrow> loaded_ledger w = Some l \<Longrightarrow> list_all in_place l"
  by (cases "missing_images_json w") (auto simp: well_kept_def loaded_ledger_def)

text \<open>A recovery pass leaves the two JSON files well kept, and keeps the
  equivalence of "in the images directory" and "not listed".\<close>

lemma recovery_keeps_equivalence:
  assumes "well_kept w"
  shows "((n \<in> keys (images w) \<longleftrightarrow> n \<notin> listed w) \<longrightarrow>
          (n \<in> keys (images (fst (fix_processFolder rt w))) \<longleftrightarrow>
           n \<notin> listed (fst (fix_processFolder rt w)))) \<and>
         well_kept (fst (fix_processFolder rt w))"
proof -
  obtain missing orphaned where sc: "scanForMissingImages rt w = (missing, orphaned)"
    by (cases "scanForMissingImages rt w")
  with scan_missing_absent [OF assms, of rt]
  have ab: "list_all (\<lambda>i. expectedPath' i = ImageFile (fileName i) \<and>
                           fileName i \<notin> keys (images w)) missing"
    by simp
  then have inp: "list_all (\<lambda>i. expectedPath' i = ImageFile (fileName i)) missing"
    by (simp add: list_all_iff)
  show ?thesis
  proof (cases "missing = [] \<and> orphaned = []")
    case True
    with sc assms show ?thesis
      by (simp add: fix_processFolder_def)
  next
    case False
    let ?r0 = "\<lparr>fixed = 0, failed = 0, orphanedCount = length orphaned\<rparr>"
    show ?thesis
    proof (cases "loaded_ledger w")
      case None
      obtain w1 s where f: "foldl (retry rt) (w, Inr (None, ?r0)) missing = (w1, s)"
        by (cases "foldl (retry rt) (w, Inr (None, ?r0)) missing")
      from foldl_retry_null [of "Inr (None, ?r0)" undefined rt w missing] f
      have s: "(\<exists>e'. s = Inl e') \<or> (\<exists>r'. s = Inr (None, r'))"
        by simp
      from f None have f': "foldl (retry rt) (w, Inr (loaded_ledger w, ?r0)) missing = (w1, s)"
        by simp
      from fix_processFolder_world [OF sc False f'] s
      have fw: "fst (fix_processFolder rt w) = w1"
        by (auto simp: updateMissingImagesFile_def)
      from foldl_retry_frame [OF ab untouched_refl refl images_kept_refl, of rt "Inr (None, ?r0)"] f
      have u: "untouched w w1" and l: "missing_images_json w1 = missing_images_json w"
        and k: "images_kept w w1"
        by simp_all
      from l None have l1: "listed w1 = {}" and l0: "listed w = {}"
        by (simp_all add: listed_def loaded_ledger_def split: json_file.splits)
      from images_kept_keys [OF k]
      have "n \<in> keys (images w) \<longrightarrow> n \<in> keys (images w1)"
        by blast
      moreover from assms u l have "well_kept w1"
        by (simp add: well_kept_def untouched_def)
      ultimately show ?thesis
        unfolding fw l1 l0 by simp
    next
      case (Some l)
      from Some have ll: "listed w = keys l"
        by (simp add: listed_cases)
      from loaded_ledger_in_place [OF assms Some] have pl: "list_all in_place l" .
      from foldl_retry_object [OF inp pl, of rt w ?r0 n] obtain w1 l1 r1 where
        f: "foldl (retry rt) (w, Inr (Some l, ?r0)) missing = (w1, Inr (Some l1, r1))"
        and q1: "(n \<in> keys (images w) \<longleftrightarrow> n \<notin> keys l) \<longrightarrow>
                 (n \<in> keys (images w1) \<longleftrightarrow> n \<notin> keys l1)"
        and p1: "list_all in_place l1"
        by (elim exE conjE) (rule that; assumption)
      from f Some
      have f': "foldl (retry rt) (w, Inr (loaded_ledger w, ?r0)) missing =
                  (w1, Inr (Some l1, r1))"
        by simp
      from foldl_retry_frame [OF ab untouched_refl refl images_kept_refl, of rt "Inr (Some l, ?r0)"] f
      have u: "untouched w w1"
        by simp
      obtain w2 where upd: "updateMissingImagesFile (Some l1) w1 = Inr w2"
        by (simp add: updateMissingImagesFile_def)
      from fix_processFolder_world [OF sc False f'] upd
      have fw: "fst (fix_processFolder rt w) = w2"
        by simp
      from updateMissingImagesFile_effect [OF upd]
      have u2: "untouched w1 w2" and im: "images w2 = images w1"
        and lj: "missing_images_json w2 = (if l1 = [] then Absent else Parsed l1)"
        by simp_all
      from lj have "listed w2 = keys l1"
        by (simp add: listed_def)
      with q1 im ll have "(n \<in> keys (images w) \<longleftrightarrow> n \<notin> listed w) \<longrightarrow>
                          (n \<in> keys (images w2) \<longleftrightarrow> n \<notin> listed w2)"
        by simp
      moreover from assms u u2 lj p1 have "well_kept w2"
        by (simp add: well_kept_def untouched_def)
      ultimately show ?thesis
        unfolding fw by simp
    qed
  qed
qed

text \<open>
  C8 (counterexample). The image of a synced collection is deleted and the Recovery
  Scanner runs with the network down: the retry fails, and since the asset came from
  mapping.json and has no ledger entry to update, it ends absent from disk, a key of
  mapping.json, and listed nowhere (no ledger file is written).
\<close>

theorem unlisted_after_failed_recovery:
  "fix_processFolder offline lost_image =
     (lost_image\<lparr>downloads := 2, requests := 4\<rparr>,
      Inr \<lparr>fixed = 0, failed = 1, orphanedCount = 0\<rparr>) \<and>
   images lost_image = [] \<and>
   missing_images_json lost_image = Absent \<and>
   mapping_json lost_image = Parsed synced_mapping \<and>
   map fst synced_mapping = [''_metadata'', ''0e000000.jpg'']"
  by code_simp

text \<open>
  C8 (as amended). After a sync pass with RETRY_COUNT at least 1 (and MAX_CONCURRENT
  at its default), every image of a source document of the collection is in the images directory or listed in the failure
  ledger. A recovery pass over a collection whose two JSON files are as the two
  programs leave them keeps, for every plain file name, the equivalence of "the file is
  in the images directory" and "the name is not listed in the ledger" whenever it holds
  before the pass.
\<close>

theorem ledger_after_a_pass:
  "(processFolder rt w = Inr (w', r) \<and> 0 < RETRY_COUNT rt \<longrightarrow>
      (\<forall>n\<in>set (asset_names rt w). existsSync w' (ImageFile n) \<or> n \<in> listed w')) \<and>
   (well_kept v \<and> plain_name n \<and> (existsSync v (ImageFile n) \<longleftrightarrow> n \<notin> listed v) \<longrightarrow>
      (existsSync (fst (fix_processFolder rt' v)) (ImageFile n) \<longleftrightarrow>
       n \<notin> listed (fst (fix_processFolder rt' v))))"
proof (intro conjI impI)
  assume "processFolder rt w = Inr (w', r) \<and> 0 < RETRY_COUNT rt"
  then have "processFolder rt w = Inr (w', r)" and "0 < RETRY_COUNT rt"
    by simp_all
  from sync_absent_is_listed [OF this]
  show "\<forall>n\<in>set (asset_names rt w). existsSync w' (ImageFile n) \<or> n \<in> listed w'"
    unfolding has_image_keys by blast
next
  assume "well_kept v \<and> plain_name n \<and> (existsSync v (ImageFile n) \<longleftrightarrow> n \<notin> listed v)"
  then have k: "well_kept v" and q: "n \<in> keys (images v) \<longleftrightarrow> n \<notin> listed v"
    unfolding has_image_keys by simp_all
  from recovery_keeps_equivalence [OF k, of n rt'] q
  show "existsSync (fst (fix_processFolder rt' v)) (ImageFile n) \<longleftrightarrow>
        n \<notin> listed (fst (fix_processFolder rt' v))"
    unfolding has_image_keys by simp
qed

text \<open>
  The amended C8 at the pass of the C2 counterexample, followed by a recovery pass with
  the network up.
\<close>

theorem ledger_after_a_pass_witness:
  "processFolder offline fresh_collection = Inr (failed_collection, one_failure) \<and>
   0 < RETRY_COUNT offline \<and>
   asset_names offline fresh_collection = [''0e000000.jpg''] \<and>
   (existsSync failed_collection (ImageFile ''0e000000.jpg'') \<or>
    ''0e000000.jpg'' \<in> listed failed_collection) \<and>
   well_kept failed_collection \<and>
   plain_name ''0e000000.jpg'' \<and>
   (existsSync failed_collection (ImageFile ''0e000000.jpg'') \<longleftrightarrow>
    ''0e000000.jpg'' \<notin> listed failed_collection) \<and>
   (existsSync (fst (fix_processFolder online failed_collection)) (ImageFile ''0e000000.jpg'') \<longleftrightarrow>
    ''0e000000.jpg'' \<notin> listed (fst (fix_processFolder online failed_collection)))"
proof -
  let ?F = "failed_collection"
  note t = ledger_after_a_pass
    [of offline fresh_collection ?F one_failure ?F "''0e000000.jpg''" online]
  have h1: "processFolder offline fresh_collection = Inr (?F, one_failure)"
    by code_simp
  have h0: "0 < RETRY_COUNT offline"
    by code_simp
  have names: "asset_names offline fresh_collection = [''0e000000.jpg'']"
    by code_simp
  have h2: "well_kept ?F"
    by code_simp
  have h4: "plain_name ''0e000000.jpg''"
    by code_simp
  have h3: "existsSync ?F (ImageFile ''0e000000.jpg'') \<longleftrightarrow>
            ''0e000000.jpg'' \<notin> listed ?F"
    by (simp add: keys_def listed_def failed_collection_def failed_ledger_def)
  from t h1 h0 have "\<forall>n\<in>set (asset_names offline fresh_collection).
      existsSync ?F (ImageFile n) \<or> n \<in> listed ?F"
    by blast
  then have c1: "existsSync ?F (ImageFile ''0e000000.jpg'') \<or>
                 ''0e000000.jpg'' \<in> listed ?F"
    unfolding names by simp
  from t h2 h3 h4 have c2:
    "existsSync (fst (fix_processFolder online ?F)) (ImageFile ''0e000000.jpg'') \<longleftrightarrow>
     ''0e000000.jpg'' \<notin> listed (fst (fix_processFolder online ?F))"
    by blast
  show ?thesis
    by (intro conjI h1 h0 names c1 h2 h4 h3 c2)
qed

end
